theory Spec2Isabelle
  imports Complex_Main "HOL-Library.Word"
begin

section \<open>Python values and strings\<close>

text \<open>
  A Python \<^verbatim>\<open>str\<close> is modelled as a HOL \<open>string\<close> whose characters are the code
  points U+0000 to U+00FF; the character classes below are those of Python's \<^verbatim>\<open>re\<close>
  and \<^verbatim>\<open>str\<close> on that range. Floats (similarity ratios, thresholds, clock readings) are
  modelled as exact rationals.
\<close>

definition is_space :: "char \<Rightarrow> bool" where
  \<comment> \<open>\<^verbatim>\<open>\s\<close> of a str pattern, and \<^verbatim>\<open>str.isspace\<close>\<close>
  "is_space c = (let n = (of_char c :: nat) in
     (9 \<le> n \<and> n \<le> 13) \<or> (28 \<le> n \<and> n \<le> 32) \<or> n = 133 \<or> n = 160)"

definition is_word :: "char \<Rightarrow> bool" where
  \<comment> \<open>\<^verbatim>\<open>\w\<close> of a str pattern: alphanumeric or underscore\<close>
  "is_word c = (let n = (of_char c :: nat) in
     (48 \<le> n \<and> n \<le> 57) \<or> (65 \<le> n \<and> n \<le> 90) \<or> n = 95 \<or> (97 \<le> n \<and> n \<le> 122) \<or>
     n = 170 \<or> n = 178 \<or> n = 179 \<or> n = 181 \<or> n = 185 \<or> n = 186 \<or>
     (188 \<le> n \<and> n \<le> 190) \<or> (192 \<le> n \<and> n \<le> 214) \<or> (216 \<le> n \<and> n \<le> 246) \<or>
     (248 \<le> n \<and> n \<le> 255))"

definition py_lower_char :: "char \<Rightarrow> char" where
  "py_lower_char c = (let n = (of_char c :: nat) in
     if (65 \<le> n \<and> n \<le> 90) \<or> (192 \<le> n \<and> n \<le> 214) \<or> (216 \<le> n \<and> n \<le> 222)
     then char_of (n + 32) else c)"

definition py_lower :: "string \<Rightarrow> string" where
  "py_lower s = map py_lower_char s"

definition py_strip :: "string \<Rightarrow> string" where
  "py_strip s = rev (dropWhile is_space (rev (dropWhile is_space s)))"

text \<open>\<^verbatim>\<open>sub in s\<close> on strings.\<close>

definition starts_with :: "string \<Rightarrow> string \<Rightarrow> bool" where
  "starts_with p s = (take (length p) s = p)"

fun py_in :: "string \<Rightarrow> string \<Rightarrow> bool" where
  "py_in sub [] = (sub = [])"
| "py_in sub (c # cs) = (starts_with sub (c # cs) \<or> py_in sub cs)"

text \<open>\<^verbatim>\<open>sep.join(xs)\<close>.\<close>

fun py_join :: "string \<Rightarrow> string list \<Rightarrow> string" where
  "py_join sep [] = []"
| "py_join sep [x] = x"
| "py_join sep (x # y # ys) = x @ sep @ py_join sep (y # ys)"

section \<open>validator.py: normalisation and artist splitting\<close>

text \<open>\<^verbatim>\<open>re.sub(r"\s+", " ", text)\<close>: every maximal run of whitespace becomes one space.\<close>

function collapse_ws :: "string \<Rightarrow> string" where
  "collapse_ws [] = []"
| "collapse_ws (c # cs) =
     (if is_space c then CHR '' '' # collapse_ws (dropWhile is_space cs)
      else c # collapse_ws cs)"
  by pat_completeness auto
termination
  by (relation "measure length") (auto simp: length_dropWhile_le less_Suc_eq_le)

definition normalize_string :: "string \<Rightarrow> string" where
  "normalize_string text =
     (if text = [] then []
      else py_strip (py_lower (collapse_ws (filter (\<lambda>c. is_word c \<or> is_space c) text))))"

text \<open>
  The pattern \<^verbatim>\<open>\s*(feat\.|ft\.|featuring|with|&|and)\s*\<close> under \<^verbatim>\<open>re.I\<close>. No alternative
  starts with whitespace, so a match at a position exists iff one of the alternatives, tried
  in the written order, matches after the maximal run of whitespace there; the trailing
  \<^verbatim>\<open>\s*\<close> then takes the maximal run. The result is the text after the match.
\<close>

definition starts_with_ci :: "string \<Rightarrow> string \<Rightarrow> bool" where
  \<comment> \<open>the keyword \<open>kw\<close> is lower case\<close>
  "starts_with_ci kw s = (py_lower (take (length kw) s) = kw)"

fun match_keyword :: "string list \<Rightarrow> string \<Rightarrow> string option" where
  "match_keyword [] s = None"
| "match_keyword (kw # kws) s =
     (if starts_with_ci kw s then Some (drop (length kw) s) else match_keyword kws s)"

definition featuring_keywords :: "string list" where
  "featuring_keywords = [''feat.'', ''ft.'', ''featuring'', ''with'', ''&'', ''and'']"

definition match_featuring :: "string \<Rightarrow> string option" where
  "match_featuring s =
     (case match_keyword featuring_keywords (dropWhile is_space s) of
        None \<Rightarrow> None
      | Some rest \<Rightarrow> Some (dropWhile is_space rest))"

text \<open>\<^verbatim>\<open>re.sub(featuring_patterns, ', ', artist_str, flags=re.I)\<close>.\<close>

function sub_featuring :: "string \<Rightarrow> string" where
  "sub_featuring [] = []"
| "sub_featuring (c # cs) =
     (case match_featuring (c # cs) of
        Some rest \<Rightarrow> '', '' @ sub_featuring rest
      | None \<Rightarrow> c # sub_featuring cs)"
  by pat_completeness auto

text \<open>
  The delimiter pattern \<^verbatim>\<open>\s*,\s*|\s*;\s*|\s*/\s*\<close>: a match at a position exists iff a
  comma, semicolon or slash follows the maximal run of whitespace there.
\<close>

definition match_delim :: "string \<Rightarrow> string option" where
  "match_delim s =
     (case dropWhile is_space s of
        [] \<Rightarrow> None
      | d # rest \<Rightarrow>
          if d = CHR '','' \<or> d = CHR '';'' \<or> d = CHR ''/'' then Some (dropWhile is_space rest)
          else None)"

text \<open>\<^verbatim>\<open>re.split(delimiters, s)\<close>; \<open>cur\<close> is the current piece, reversed.\<close>

function re_split_delims :: "string \<Rightarrow> string \<Rightarrow> string list" where
  "re_split_delims cur [] = [rev cur]"
| "re_split_delims cur (c # cs) =
     (case match_delim (c # cs) of
        Some rest \<Rightarrow> rev cur # re_split_delims [] rest
      | None \<Rightarrow> re_split_delims (c # cur) cs)"
  by pat_completeness auto

definition split_artists :: "string \<Rightarrow> string list" where
  "split_artists artist_str =
     (if artist_str = [] then []
      else map normalize_string
             (filter (\<lambda>a. py_strip a \<noteq> []) (re_split_delims [] (sub_featuring artist_str))))"

section \<open>difflib: \<^verbatim>\<open>SequenceMatcher(None, a, b).ratio()\<close>\<close>

text \<open>
  The standard library's matcher, as the validator calls it: no junk predicate, the
  automatic junk heuristic left on. Elements of \<open>b\<close> that occur more than
  \<open>len(b) // 100 + 1\<close> times are "popular" when \<open>len(b) \<ge> 200\<close> and are dropped from the
  index \<open>b2j\<close>.
\<close>

definition bpopular :: "string \<Rightarrow> char list" where
  "bpopular b =
     (let n = length b in
      if n \<ge> 200 then filter (\<lambda>c. count_list b c > n div 100 + 1) (remdups b) else [])"

definition b2j_get :: "string \<Rightarrow> char list \<Rightarrow> char \<Rightarrow> nat list" where
  \<comment> \<open>\<^verbatim>\<open>b2j.get(elt, [])\<close>: the indices of \<open>elt\<close> in \<open>b\<close>, ascending\<close>
  "b2j_get b popular elt =
     (if elt \<in> set popular then [] else filter (\<lambda>j. b ! j = elt) [0..<length b])"

type_synonym match = "nat \<times> nat \<times> nat"

definition j2len_get :: "(nat \<rightharpoonup> nat) \<Rightarrow> nat \<Rightarrow> nat" where
  \<comment> \<open>\<^verbatim>\<open>j2len.get(j-1, 0)\<close> for the index \<open>j\<close>; the key \<open>-1\<close> is never present\<close>
  "j2len_get j2len j = (if j = 0 then 0 else case j2len (j - 1) of None \<Rightarrow> 0 | Some v \<Rightarrow> v)"

text \<open>The loop over \<open>j\<close> in \<^verbatim>\<open>find_longest_match\<close>, for one \<open>i\<close>.\<close>

fun flm_inner ::
  "nat \<Rightarrow> nat \<Rightarrow> nat \<Rightarrow> (nat \<rightharpoonup> nat) \<Rightarrow> nat list \<Rightarrow> (nat \<rightharpoonup> nat) \<times> match \<Rightarrow> (nat \<rightharpoonup> nat) \<times> match"
where
  "flm_inner i blo bhi j2len [] st = st"
| "flm_inner i blo bhi j2len (j # js) (newj2len, (besti, bestj, bestsize)) =
     (if j < blo then flm_inner i blo bhi j2len js (newj2len, (besti, bestj, bestsize))
      else if j \<ge> bhi then (newj2len, (besti, bestj, bestsize))
      else
        let k = j2len_get j2len j + 1 in
        if k > bestsize
        then flm_inner i blo bhi j2len js (newj2len(j \<mapsto> k), (i + 1 - k, j + 1 - k, k))
        else flm_inner i blo bhi j2len js (newj2len(j \<mapsto> k), (besti, bestj, bestsize)))"

text \<open>The loop \<^verbatim>\<open>for i in range(alo, ahi)\<close>, from \<open>i\<close> on.\<close>

function flm_outer ::
  "string \<Rightarrow> string \<Rightarrow> char list \<Rightarrow> nat \<Rightarrow> nat \<Rightarrow> nat \<Rightarrow> nat \<Rightarrow> (nat \<rightharpoonup> nat) \<times> match \<Rightarrow> match"
where
  "flm_outer a b popular i ahi blo bhi (j2len, best) =
     (if i < ahi
      then flm_outer a b popular (i + 1) ahi blo bhi
             (flm_inner i blo bhi j2len (b2j_get b popular (a ! i)) (Map.empty, best))
      else best)"
  by pat_completeness auto
termination
  by (relation "measure (\<lambda>(a, b, popular, i, ahi, blo, bhi, st). ahi - i)") auto

text \<open>
  The two extension loops over matching non-junk elements (here: the popular ones). The
  junk set is empty without a junk predicate, so the two loops over junk never run.
\<close>

function extend_left :: "string \<Rightarrow> string \<Rightarrow> nat \<Rightarrow> nat \<Rightarrow> match \<Rightarrow> match" where
  "extend_left a b alo blo (besti, bestj, bestsize) =
     (if besti > alo \<and> bestj > blo \<and> a ! (besti - 1) = b ! (bestj - 1)
      then extend_left a b alo blo (besti - 1, bestj - 1, bestsize + 1)
      else (besti, bestj, bestsize))"
  by pat_completeness auto
termination
  by (relation "measure (\<lambda>(a, b, alo, blo, besti, bestj, bestsize). besti)") auto

function extend_right :: "string \<Rightarrow> string \<Rightarrow> nat \<Rightarrow> nat \<Rightarrow> match \<Rightarrow> match" where
  "extend_right a b ahi bhi (besti, bestj, bestsize) =
     (if besti + bestsize < ahi \<and> bestj + bestsize < bhi \<and>
         a ! (besti + bestsize) = b ! (bestj + bestsize)
      then extend_right a b ahi bhi (besti, bestj, bestsize + 1)
      else (besti, bestj, bestsize))"
  by pat_completeness auto
termination
  by (relation "measure (\<lambda>(a, b, ahi, bhi, besti, bestj, bestsize). ahi - (besti + bestsize))") auto

definition find_longest_match ::
  "string \<Rightarrow> string \<Rightarrow> char list \<Rightarrow> nat \<Rightarrow> nat \<Rightarrow> nat \<Rightarrow> nat \<Rightarrow> match" where
  "find_longest_match a b popular alo ahi blo bhi =
     extend_right a b ahi bhi
       (extend_left a b alo blo
         (flm_outer a b popular alo ahi blo bhi (Map.empty, (alo, blo, 0))))"

text \<open>
  The sum of the sizes of the matching blocks: \<^verbatim>\<open>get_matching_blocks\<close> splits the range
  at the longest match and recurses on the pieces to its left and to its right (the order
  in which its queue visits them does not change the sum).
\<close>

function matching_total :: "string \<Rightarrow> string \<Rightarrow> char list \<Rightarrow> nat \<Rightarrow> nat \<Rightarrow> nat \<Rightarrow> nat \<Rightarrow> nat" where
  "matching_total a b popular alo ahi blo bhi =
     (case find_longest_match a b popular alo ahi blo bhi of
        (i, j, k) \<Rightarrow>
          if k = 0 then 0
          else k
             + (if alo < i \<and> blo < j then matching_total a b popular alo i blo j else 0)
             + (if i + k < ahi \<and> j + k < bhi then matching_total a b popular (i + k) ahi (j + k) bhi else 0))"
  by pat_completeness auto

definition SequenceMatcher_ratio :: "string \<Rightarrow> string \<Rightarrow> rat" where
  \<comment> \<open>\<^verbatim>\<open>2.0 * matches / (len(a) + len(b))\<close>, and 1.0 when both are empty\<close>
  "SequenceMatcher_ratio a b =
     (let la = length a; lb = length b in
      if la + lb = 0 then 1
      else 2 * of_nat (matching_total a b (bpopular b) 0 la 0 lb) / of_nat (la + lb))"

section \<open>Provider results as Python dictionaries\<close>

text \<open>
  The values a result dictionary holds. \<open>PList xs s\<close> is a list with the elements \<open>xs\<close>
  whose \<^verbatim>\<open>str()\<close> is \<open>s\<close>; \<open>PObj t s\<close> is any other object (a number, a boolean, a
  dictionary), of which the code uses only the truth value \<open>t\<close> and the \<^verbatim>\<open>str()\<close> text
  \<open>s\<close>. A dictionary is an association list; the first binding of a key counts.
\<close>

datatype pyval = PNone | PStr string | PList "pyval list" string | PObj bool string

type_synonym pydict = "(string \<times> pyval) list"

fun truthy :: "pyval \<Rightarrow> bool" where
  "truthy PNone = False"
| "truthy (PStr s) = (s \<noteq> [])"
| "truthy (PList xs s) = (xs \<noteq> [])"
| "truthy (PObj t s) = t"

fun py_str :: "pyval \<Rightarrow> string" where
  "py_str PNone = ''None''"
| "py_str (PStr s) = s"
| "py_str (PList xs s) = s"
| "py_str (PObj t s) = s"

definition dict_get :: "pydict \<Rightarrow> string \<Rightarrow> pyval" where
  \<comment> \<open>\<^verbatim>\<open>d.get(k)\<close>\<close>
  "dict_get d k = (case map_of d k of None \<Rightarrow> PNone | Some v \<Rightarrow> v)"

definition py_or :: "pyval \<Rightarrow> pyval \<Rightarrow> pyval" where
  \<comment> \<open>\<^verbatim>\<open>x or y\<close>\<close>
  "py_or x y = (if truthy x then x else y)"

text \<open>
  The exceptions of a run: one raised by a provider adapter (with its \<^verbatim>\<open>str()\<close>), the
  \<^verbatim>\<open>TypeError\<close> of \<^verbatim>\<open>re.sub\<close> on a value that is not a string, the \<^verbatim>\<open>KeyError\<close> of a
  dictionary subscript, the \<^verbatim>\<open>ValueError\<close> of \<^verbatim>\<open>int()\<close> and the \<^verbatim>\<open>IndexError\<close> of a list
  subscript.
\<close>

datatype py_exn = AdapterError string | TypeError | KeyError int | ValueError | IndexError

section \<open>validator.py: the matcher\<close>

definition get_similarity_ratio :: "string \<Rightarrow> string \<Rightarrow> rat" where
  "get_similarity_ratio str1 str2 =
     (let s1 = normalize_string str1; s2 = normalize_string str2 in
      if s1 = [] \<or> s2 = [] then 0 else SequenceMatcher_ratio s1 s2)"

text \<open>\<^verbatim>\<open>[normalize_string(a) for a in artist if a]\<close>; \<^verbatim>\<open>re.sub\<close> raises on a non-string.\<close>

fun normalize_artist_list :: "pyval list \<Rightarrow> py_exn + string list" where
  "normalize_artist_list [] = Inr []"
| "normalize_artist_list (a # as) =
     (if truthy a then
        (case a of
           PStr s \<Rightarrow>
             (case normalize_artist_list as of
                Inl e \<Rightarrow> Inl e
              | Inr ns \<Rightarrow> Inr (normalize_string s # ns))
         | _ \<Rightarrow> Inl TypeError)
      else normalize_artist_list as)"

definition extract_artist_song_from_result :: "pydict \<Rightarrow> py_exn + (string list \<times> string)" where
  "extract_artist_song_from_result result =
     (let artist = py_or (py_or (py_or (dict_get result ''artist'') (dict_get result ''artists''))
                                (dict_get result ''artist_name'')) (dict_get result ''trackArtist'');
          song = py_or (py_or (py_or (py_or (dict_get result ''song'') (dict_get result ''song_title''))
                                     (dict_get result ''title'')) (dict_get result ''name''))
                       (dict_get result ''trackName'')
      in case (case artist of
                 PList xs s \<Rightarrow> normalize_artist_list xs
               | PStr s \<Rightarrow> Inr (split_artists s)
               | _ \<Rightarrow> Inr []) of
           Inl e \<Rightarrow> Inl e
         | Inr rets \<Rightarrow> Inr (rets, normalize_string (py_str (py_or song (PStr [])))))"

text \<open>
  The verdict dictionary; the three metadata keys are absent from a "Missing metadata"
  verdict. \<^verbatim>\<open>round(x, 3)\<close> is taken on the exact ratio, a tie going to the even neighbour
  (the double nearest to a tie may lie on either side of it).
\<close>

record verdict =
  valid :: bool
  reason :: string
  returned_artists :: "string list option"
  returned_song :: "string option"
  song_match :: "rat option"

definition py_round3 :: "rat \<Rightarrow> rat" where
  "py_round3 q =
     (let x = q * 1000; f = \<lfloor>x\<rfloor>; d = x - of_int f in
      of_int (if d < 1 / 2 then f else if d > 1 / 2 then f + 1 else if even f then f else f + 1)
        / 1000)"

text \<open>
  The loop over the requested artists: the method tag of the first requested artist and
  check that succeeds, \<open>None\<close> when the loop ends with \<^verbatim>\<open>found_match\<close> still false.
\<close>

fun find_artist_match :: "rat \<Rightarrow> string list \<Rightarrow> string \<Rightarrow> string \<Rightarrow> string list \<Rightarrow> string option" where
  "find_artist_match threshold rets raw_returned_artists_str ret_song [] = None"
| "find_artist_match threshold rets raw_returned_artists_str ret_song (req # reqs) =
     (if list_ex (\<lambda>ret. get_similarity_ratio req ret \<ge> threshold) rets
      then Some ''Artist List''
      else if length req > 3 \<and> py_in req raw_returned_artists_str
      then Some ''Partial Artist String''
      else if length req > 3 \<and> py_in req ret_song
      then Some ''Song Title''
      else find_artist_match threshold rets raw_returned_artists_str ret_song reqs)"

definition validate_lyrics_match :: "string \<Rightarrow> string \<Rightarrow> pydict \<Rightarrow> rat \<Rightarrow> py_exn + verdict" where
  "validate_lyrics_match requested_artist requested_song result threshold =
     (let requested_artists = split_artists requested_artist;
          normalized_requested_song = normalize_string requested_song
      in case extract_artist_song_from_result result of
           Inl e \<Rightarrow> Inl e
         | Inr (rets, ret_song) \<Rightarrow>
             let raw_returned_artists_str = py_join '' '' rets in
             if rets = [] \<or> ret_song = []
             then Inr \<lparr>valid = False, reason = ''Missing metadata'', returned_artists = None,
                       returned_song = None, song_match = None\<rparr>
             else
               let song_similarity = get_similarity_ratio normalized_requested_song ret_song in
               (case find_artist_match threshold rets raw_returned_artists_str ret_song
                       requested_artists of
                  Some match_method \<Rightarrow>
                    if song_similarity \<ge> threshold
                    then Inr \<lparr>valid = True, reason = ''Matched via '' @ match_method,
                              returned_artists = Some rets, returned_song = Some ret_song,
                              song_match = Some (py_round3 song_similarity)\<rparr>
                    else Inr \<lparr>valid = False, reason = ''Artist not found in metadata'',
                              returned_artists = Some rets, returned_song = Some ret_song,
                              song_match = Some (py_round3 song_similarity)\<rparr>
                | None \<Rightarrow>
                    Inr \<lparr>valid = False, reason = ''Artist not found in metadata'',
                         returned_artists = Some rets, returned_song = Some ret_song,
                         song_match = Some (py_round3 song_similarity)\<rparr>))"

text \<open>
  An attempt dictionary. The race puts \<^verbatim>\<open>api\<close>, \<^verbatim>\<open>success\<close> and either \<^verbatim>\<open>result\<close> or
  \<^verbatim>\<open>reason\<close> in it; the sequential loop passes one with \<^verbatim>\<open>api\<close> and \<^verbatim>\<open>result\<close> only, so
  \<^verbatim>\<open>success\<close> may be absent.
\<close>

record attempt =
  a_api :: string
  a_success :: "bool option"
  a_result :: "pydict option"
  a_reason :: "string option"

record valid_result =
  vr_api :: string
  vr_result :: pydict
  vr_validation :: verdict

record filter_report =
  has_valid_match :: bool
  valid_results :: "valid_result list"
  all_failed :: bool

text \<open>
  The loop of \<^verbatim>\<open>validate_and_filter_results\<close>, giving \<^verbatim>\<open>valid_results\<close> (the list
  \<^verbatim>\<open>invalid_results\<close> is built there and never read).
\<close>

fun filter_valid :: "string \<Rightarrow> string \<Rightarrow> rat \<Rightarrow> attempt list \<Rightarrow> py_exn + valid_result list" where
  "filter_valid requested_artist requested_song threshold [] = Inr []"
| "filter_valid requested_artist requested_song threshold (att # atts) =
     (if a_success att = Some False
      then filter_valid requested_artist requested_song threshold atts
      else
        (case a_result att of
           None \<Rightarrow> filter_valid requested_artist requested_song threshold atts
         | Some r \<Rightarrow>
             if r = [] then filter_valid requested_artist requested_song threshold atts
             else
               (case validate_lyrics_match requested_artist requested_song r threshold of
                  Inl e \<Rightarrow> Inl e
                | Inr val \<Rightarrow>
                    (case filter_valid requested_artist requested_song threshold atts of
                       Inl e \<Rightarrow> Inl e
                     | Inr vs \<Rightarrow>
                         Inr (if valid val
                              then \<lparr>vr_api = a_api att, vr_result = r, vr_validation = val\<rparr> # vs
                              else vs)))))"

definition validate_and_filter_results ::
  "string \<Rightarrow> string \<Rightarrow> attempt list \<Rightarrow> rat \<Rightarrow> py_exn + filter_report" where
  "validate_and_filter_results requested_artist requested_song attempts threshold =
     (case filter_valid requested_artist requested_song threshold attempts of
        Inl e \<Rightarrow> Inl e
      | Inr vs \<Rightarrow>
          Inr \<lparr>has_valid_match = (length vs > 0), valid_results = vs,
               all_failed = (length vs = 0)\<rparr>)"

section \<open>The acceptance rule in the specification's words\<close>

text \<open>
  The three checks of one requested artist name, and the first requested name, in list
  order, that passes one of them. These follow the wording of the acceptance rule and are
  compared with \<open>find_artist_match\<close> below.
\<close>

definition artist_list_hit :: "rat \<Rightarrow> string list \<Rightarrow> string \<Rightarrow> bool" where
  "artist_list_hit threshold rets req = (\<exists>ret \<in> set rets. get_similarity_ratio req ret \<ge> threshold)"

definition partial_artist_string_hit :: "string list \<Rightarrow> string \<Rightarrow> bool" where
  "partial_artist_string_hit rets req = (length req > 3 \<and> py_in req (py_join '' '' rets))"

definition song_title_hit :: "string \<Rightarrow> string \<Rightarrow> bool" where
  "song_title_hit ret_song req = (length req > 3 \<and> py_in req ret_song)"

definition artist_hit :: "rat \<Rightarrow> string list \<Rightarrow> string \<Rightarrow> string \<Rightarrow> bool" where
  "artist_hit threshold rets ret_song req =
     (artist_list_hit threshold rets req \<or> partial_artist_string_hit rets req \<or>
      song_title_hit ret_song req)"

definition method_tag :: "rat \<Rightarrow> string list \<Rightarrow> string \<Rightarrow> string" where
  "method_tag threshold rets req =
     (if artist_list_hit threshold rets req then ''Artist List''
      else if partial_artist_string_hit rets req then ''Partial Artist String''
      else ''Song Title'')"

definition first_hit :: "rat \<Rightarrow> string list \<Rightarrow> string \<Rightarrow> string list \<Rightarrow> string \<Rightarrow> bool" where
  "first_hit threshold rets ret_song reqs req =
     (\<exists>pre post. reqs = pre @ req # post \<and>
        (\<forall>r \<in> set pre. \<not> artist_hit threshold rets ret_song r) \<and>
        artist_hit threshold rets ret_song req)"

section \<open>fetch_controller.py\<close>

subsection \<open>Providers, adapter calls and the event loop\<close>

text \<open>
  The dictionary \<^verbatim>\<open>all_fetchers\<close> has the keys 1 to 6; \<open>fetcher_name\<close> is the display
  name it holds for a key.
\<close>

definition in_all_fetchers :: "int \<Rightarrow> bool" where
  "in_all_fetchers i = (1 \<le> i \<and> i \<le> 6)"

definition fetcher_name :: "int \<Rightarrow> string" where
  "fetcher_name i =
     (if i = 1 then ''Genius'' else if i = 2 then ''LRCLIB'' else if i = 3 then ''SimpMusic''
      else if i = 4 then ''YouTube Music'' else if i = 5 then ''Lyrics.ovh''
      else ''ChartLyrics'')"

definition DEFAULT_SYNCED_SEQUENCE :: "int list" where
  "DEFAULT_SYNCED_SEQUENCE = [2, 3, 4]"

definition DEFAULT_PLAIN_SEQUENCE :: "int list" where
  "DEFAULT_PLAIN_SEQUENCE = [1, 2, 3, 4, 5, 6]"

definition FAST_MODE_SEQUENCE :: "int list" where
  "FAST_MODE_SEQUENCE = [2, 3]"

text \<open>
  What one call \<^verbatim>\<open>fetcher.fetch(artist, song, timestamps=timestamps)\<close> does: after
  \<open>latency\<close> seconds it returns a dictionary or \<^verbatim>\<open>None\<close>, or raises an exception (other
  than a timeout) whose \<^verbatim>\<open>str()\<close> is given.
\<close>

datatype call_outcome = Returns "pydict option" | Raises string

record call =
  latency :: rat
  outcome :: call_outcome

text \<open>
  The surroundings of a run: \<open>configured i\<close> is the truth value of the fetcher object of
  provider \<open>i\<close>; \<open>fetch i artist song timestamps\<close> is what its adapter call does;
  \<open>completion tasks\<close> is the behaviour of the event loop in a race: for the tasks created
  (named by their provider ids, in creation order), the \<^verbatim>\<open>done\<close> sets of the successive
  \<^verbatim>\<open>asyncio.wait\<close> calls, each in the order the \<^verbatim>\<open>for\<close> loop visits it.
\<close>

record env =
  configured :: "int \<Rightarrow> bool"
  fetch :: "int \<Rightarrow> string \<Rightarrow> string \<Rightarrow> bool \<Rightarrow> call"
  completion :: "int list \<Rightarrow> int list list"

text \<open>
  The test both paths apply to a fetched result:
  \<^verbatim>\<open>result and (not timestamps or result.get("hasTimestamps") or result.get("timed_lyrics") or result.get("timestamped"))\<close>.
\<close>

definition usable_result :: "bool \<Rightarrow> pydict option \<Rightarrow> bool" where
  "usable_result timestamps result =
     (case result of
        None \<Rightarrow> False
      | Some r \<Rightarrow>
          r \<noteq> [] \<and>
          (\<not> timestamps \<or> truthy (dict_get r ''hasTimestamps'') \<or>
           truthy (dict_get r ''timed_lyrics'') \<or> truthy (dict_get r ''timestamped'')))"

text \<open>
  \<^verbatim>\<open>fetch_with_timeout\<close>: \<^verbatim>\<open>asyncio.wait_for\<close> raises the timeout when the call has not
  finished within \<open>timeout\<close> seconds.
\<close>

definition fetch_with_timeout :: "string \<Rightarrow> call \<Rightarrow> bool \<Rightarrow> rat \<Rightarrow> attempt" where
  "fetch_with_timeout api_name c timestamps timeout =
     (if latency c > timeout
      then \<lparr>a_api = api_name, a_success = Some False, a_result = None, a_reason = Some ''timeout''\<rparr>
      else
        (case outcome c of
           Raises e \<Rightarrow>
             \<lparr>a_api = api_name, a_success = Some False, a_result = None, a_reason = Some e\<rparr>
         | Returns result \<Rightarrow>
             if usable_result timestamps result
             then \<lparr>a_api = api_name, a_success = Some True, a_result = result, a_reason = None\<rparr>
             else \<lparr>a_api = api_name, a_success = Some False, a_result = None,
                   a_reason = Some ''no_results''\<rparr>))"

subsection \<open>The race\<close>

text \<open>
  The loops \<^verbatim>\<open>while pending\<close> and \<^verbatim>\<open>for task in done\<close> over the outcomes of the tasks, in
  the rounds the event loop reports them: the first successful attempt returns.
\<close>

fun race_loop :: "attempt list list \<Rightarrow> attempt list \<Rightarrow> pydict option \<times> attempt list" where
  "race_loop [] attempts = (None, attempts)"
| "race_loop ([] # rounds) attempts = race_loop rounds attempts"
| "race_loop ((r # done) # rounds) attempts =
     (if a_success r = Some True then (a_result r, attempts @ [r])
      else race_loop (done # rounds) (attempts @ [r]))"

definition created_tasks :: "env \<Rightarrow> int list \<Rightarrow> int list" where
  "created_tasks e fetcher_ids = filter (\<lambda>i. in_all_fetchers i \<and> configured e i) fetcher_ids"

definition task_attempt :: "env \<Rightarrow> string \<Rightarrow> string \<Rightarrow> bool \<Rightarrow> int \<Rightarrow> attempt" where
  "task_attempt e artist_name song_title timestamps i =
     fetch_with_timeout (fetcher_name i) (fetch e i artist_name song_title timestamps) timestamps 10"

definition fetch_lyrics_parallel ::
  "env \<Rightarrow> string \<Rightarrow> string \<Rightarrow> bool \<Rightarrow> int list \<Rightarrow> pydict option \<times> attempt list" where
  "fetch_lyrics_parallel e artist_name song_title timestamps fetcher_ids =
     (let tasks = created_tasks e fetcher_ids in
      if tasks = [] then (None, [])
      else race_loop (map (map (task_attempt e artist_name song_title timestamps))
                          (completion e tasks)) [])"

subsection \<open>Parsing a custom sequence\<close>

text \<open>\<^verbatim>\<open>s.split(",")\<close>; \<open>cur\<close> is the current piece, reversed.\<close>

fun split_commas :: "string \<Rightarrow> string \<Rightarrow> string list" where
  "split_commas cur [] = [rev cur]"
| "split_commas cur (c # cs) =
     (if c = CHR '','' then rev cur # split_commas [] cs else split_commas (c # cur) cs)"

text \<open>
  \<^verbatim>\<open>int(x)\<close> on a string: whitespace around, an optional sign, decimal digits with single
  underscores between them; \<open>None\<close> is the \<^verbatim>\<open>ValueError\<close>. (The limit on the number of
  digits is not modelled.)
\<close>

definition is_int_space :: "char \<Rightarrow> bool" where
  "is_int_space c = (let n = (of_char c :: nat) in (9 \<le> n \<and> n \<le> 13) \<or> n = 32 \<or> n = 133 \<or> n = 160)"

definition is_digit :: "char \<Rightarrow> bool" where
  "is_digit c = (let n = (of_char c :: nat) in 48 \<le> n \<and> n \<le> 57)"

fun parse_digits :: "nat \<Rightarrow> bool \<Rightarrow> string \<Rightarrow> nat option" where
  "parse_digits acc after_digit [] = (if after_digit then Some acc else None)"
| "parse_digits acc after_digit (c # cs) =
     (if is_digit c then parse_digits (10 * acc + (of_char c - 48)) True cs
      else if c = CHR ''_'' \<and> after_digit then parse_digits acc False cs
      else None)"

definition py_int :: "string \<Rightarrow> int option" where
  "py_int x =
     (case rev (dropWhile is_int_space (rev (dropWhile is_int_space x))) of
        [] \<Rightarrow> None
      | c # cs \<Rightarrow>
          if c = CHR ''-'' then map_option (\<lambda>n. - int n) (parse_digits 0 False cs)
          else if c = CHR ''+'' then map_option int (parse_digits 0 False cs)
          else map_option int (parse_digits 0 False (c # cs)))"

fun ints_of :: "string list \<Rightarrow> py_exn + int list" where
  "ints_of [] = Inr []"
| "ints_of (x # xs) =
     (case py_int x of
        None \<Rightarrow> Inl ValueError
      | Some n \<Rightarrow> (case ints_of xs of Inl e \<Rightarrow> Inl e | Inr ns \<Rightarrow> Inr (n # ns)))"

definition parse_sequence :: "string \<Rightarrow> py_exn + int list" where
  \<comment> \<open>\<^verbatim>\<open>[int(x) for x in sequence.split(",") if x.strip() != ""]\<close>\<close>
  "parse_sequence sequence = ints_of (filter (\<lambda>x. py_strip x \<noteq> []) (split_commas [] sequence))"

subsection \<open>The controller\<close>

text \<open>
  The response dictionary: \<^verbatim>\<open>status\<close> "success" with \<^verbatim>\<open>data\<close> and, in a race, the
  \<^verbatim>\<open>validation\<close> key when it is added; or \<^verbatim>\<open>status\<close> "error" with the message (the
  timestamp of an error is left out).
\<close>

datatype response = Success pydict "verdict option" | Failure string

record seq_attempt =
  s_api :: string
  s_status :: string
  s_message :: "py_exn option"

text \<open>
  A run returns only its response. The model also reports the controller's local list
  \<^verbatim>\<open>attempts\<close> at that moment (of the sequential loop, or of the race) and the providers
  whose adapter was called, in call order; every task a race creates calls its adapter.
\<close>

record run =
  resp :: response
  seq_attempts :: "seq_attempt list"
  race_attempts :: "attempt list"
  invoked :: "int list"

definition quoted :: "string \<Rightarrow> string" where
  "quoted s = CHR 0x27 # s @ [CHR 0x27]"

definition no_lyrics_message :: "string \<Rightarrow> string \<Rightarrow> string" where
  "no_lyrics_message artist_name song_title =
     ''No lyrics found for '' @ quoted song_title @ '' by '' @ quoted artist_name"

definition none_matched_message :: "string \<Rightarrow> string \<Rightarrow> string" where
  "none_matched_message artist_name song_title =
     ''Found results but none matched '' @ quoted song_title @ '' by '' @ quoted artist_name @
     '' (possible wrong song returned by API)''"

definition invalid_sequence_message :: string where
  "invalid_sequence_message = ''Invalid sequence: must be unique numbers between 1 and 6''"

definition invalid_format_message :: string where
  "invalid_format_message = ''Invalid sequence format: must be comma-separated integers''"

text \<open>
  The first \<^verbatim>\<open>if\<close>/\<^verbatim>\<open>elif\<close>/\<^verbatim>\<open>else\<close> of the controller: the fetcher ids of the run, or the
  error response it returns at once. \<open>sequence\<close> is \<open>None\<close> for Python's \<^verbatim>\<open>None\<close>.
\<close>

definition select_sequence :: "bool \<Rightarrow> bool \<Rightarrow> string option \<Rightarrow> bool \<Rightarrow> response + int list" where
  "select_sequence timestamps pass_param sequence fast_mode =
     (if fast_mode then Inr FAST_MODE_SEQUENCE
      else if pass_param \<and> sequence \<noteq> None \<and> sequence \<noteq> Some []
      then
        (case parse_sequence (the sequence) of
           Inl e \<Rightarrow> Inl (Failure invalid_format_message)
         | Inr fetcher_ids \<Rightarrow>
             if fetcher_ids = [] \<or> \<not> list_all (\<lambda>x. 1 \<le> x \<and> x \<le> 6) fetcher_ids \<or>
                length fetcher_ids > 6 \<or> length fetcher_ids \<noteq> card (set fetcher_ids)
             then Inl (Failure invalid_sequence_message)
             else Inr fetcher_ids)
      else Inr (if timestamps then DEFAULT_SYNCED_SEQUENCE else DEFAULT_PLAIN_SEQUENCE))"

definition use_parallel :: "bool \<Rightarrow> string option \<Rightarrow> bool \<Rightarrow> int list \<Rightarrow> bool" where
  \<comment> \<open>\<^verbatim>\<open>fast_mode or (pass_param and sequence and len(fetcher_ids) > 1)\<close>\<close>
  "use_parallel pass_param sequence fast_mode fetcher_ids =
     (fast_mode \<or> (pass_param \<and> sequence \<noteq> None \<and> sequence \<noteq> Some [] \<and> length fetcher_ids > 1))"

text \<open>The branch of the controller that runs the race and validates its batch.\<close>

definition parallel_branch ::
  "env \<Rightarrow> string \<Rightarrow> string \<Rightarrow> bool \<Rightarrow> int list \<Rightarrow> py_exn + run" where
  "parallel_branch e artist_name song_title timestamps fetcher_ids =
     (case fetch_lyrics_parallel e artist_name song_title timestamps fetcher_ids of
        (result, attempts) \<Rightarrow>
          let calls = created_tasks e fetcher_ids in
          if result \<noteq> None \<and> result \<noteq> Some []
          then
            (case validate_and_filter_results artist_name song_title attempts (3 / 4) of
               Inl ex \<Rightarrow> Inl ex
             | Inr validation \<Rightarrow>
                 if has_valid_match validation
                 then
                   (case valid_results validation of
                      [] \<Rightarrow> Inl IndexError
                    | valid_result # others \<Rightarrow>
                        let validation_info = vr_validation valid_result;
                            artist_match = (1 :: rat);
                            song_match = (case song_match validation_info of None \<Rightarrow> 1 | Some m \<Rightarrow> m)
                        in Inr \<lparr>resp = Success (vr_result valid_result)
                                        (if artist_match < 1 \<or> song_match < 1
                                         then Some validation_info else None),
                                seq_attempts = [], race_attempts = attempts, invoked = calls\<rparr>)
                 else Inr \<lparr>resp = Failure (none_matched_message artist_name song_title),
                           seq_attempts = [], race_attempts = attempts, invoked = calls\<rparr>)
          else Inr \<lparr>resp = Failure (no_lyrics_message artist_name song_title),
                    seq_attempts = [], race_attempts = attempts, invoked = calls\<rparr>)"

text \<open>
  The sequential loop \<^verbatim>\<open>for fetcher_id in fetcher_ids\<close>, with the list \<^verbatim>\<open>attempts\<close> and the
  adapter calls made so far. The adapter call is awaited as it is: its latency plays no
  part.
\<close>

fun sequential_loop ::
  "env \<Rightarrow> string \<Rightarrow> string \<Rightarrow> bool \<Rightarrow> int list \<Rightarrow> seq_attempt list \<Rightarrow> int list \<Rightarrow> py_exn + run"
where
  "sequential_loop e artist_name song_title timestamps [] attempts calls =
     Inr \<lparr>resp = Failure (no_lyrics_message artist_name song_title),
          seq_attempts = attempts, race_attempts = [], invoked = calls\<rparr>"
| "sequential_loop e artist_name song_title timestamps (fetcher_id # rest) attempts calls =
     (if \<not> in_all_fetchers fetcher_id then Inl (KeyError fetcher_id)
      else
        let api_name = fetcher_name fetcher_id in
        if \<not> configured e fetcher_id
        then sequential_loop e artist_name song_title timestamps rest
               (attempts @ [\<lparr>s_api = api_name, s_status = ''not_configured'', s_message = None\<rparr>])
               calls
        else
          (case outcome (fetch e fetcher_id artist_name song_title timestamps) of
             Raises msg \<Rightarrow>
               sequential_loop e artist_name song_title timestamps rest
                 (attempts @ [\<lparr>s_api = api_name, s_status = ''error'',
                               s_message = Some (AdapterError msg)\<rparr>])
                 (calls @ [fetcher_id])
           | Returns result \<Rightarrow>
               if usable_result timestamps result
               then
                 (case validate_and_filter_results artist_name song_title
                         [\<lparr>a_api = api_name, a_success = None, a_result = result, a_reason = None\<rparr>]
                         (3 / 4) of
                    Inl ex \<Rightarrow>
                      sequential_loop e artist_name song_title timestamps rest
                        (attempts @ [\<lparr>s_api = api_name, s_status = ''error'', s_message = Some ex\<rparr>])
                        (calls @ [fetcher_id])
                  | Inr validation \<Rightarrow>
                      if has_valid_match validation
                      then
                        (case valid_results validation of
                           [] \<Rightarrow>
                             sequential_loop e artist_name song_title timestamps rest
                               (attempts @ [\<lparr>s_api = api_name, s_status = ''error'',
                                             s_message = Some IndexError\<rparr>])
                               (calls @ [fetcher_id])
                         | valid_result # others \<Rightarrow>
                             Inr \<lparr>resp = Success (vr_result valid_result) None,
                                  seq_attempts = attempts, race_attempts = [],
                                  invoked = calls @ [fetcher_id]\<rparr>)
                      else
                        sequential_loop e artist_name song_title timestamps rest
                          (attempts @ [\<lparr>s_api = api_name, s_status = ''validation_failed'',
                                        s_message = None\<rparr>])
                          (calls @ [fetcher_id]))
               else
                 sequential_loop e artist_name song_title timestamps rest
                   (attempts @ [\<lparr>s_api = api_name, s_status = ''no_results'', s_message = None\<rparr>])
                   (calls @ [fetcher_id])))"

definition fetch_lyrics_controller ::
  "env \<Rightarrow> string \<Rightarrow> string \<Rightarrow> bool \<Rightarrow> bool \<Rightarrow> string option \<Rightarrow> bool \<Rightarrow> py_exn + run" where
  "fetch_lyrics_controller e artist_name song_title timestamps pass_param sequence fast_mode =
     (case select_sequence timestamps pass_param sequence fast_mode of
        Inl error_response \<Rightarrow>
          Inr \<lparr>resp = error_response, seq_attempts = [], race_attempts = [], invoked = []\<rparr>
      | Inr fetcher_ids \<Rightarrow>
          if use_parallel pass_param sequence fast_mode fetcher_ids
          then parallel_branch e artist_name song_title timestamps fetcher_ids
          else sequential_loop e artist_name song_title timestamps fetcher_ids [] [])"

section \<open>cache.py\<close>

subsection \<open>The cache key\<close>

definition CACHE_VERSION :: string where
  "CACHE_VERSION = ''v2''"

text \<open>
  \<^verbatim>\<open>json.dumps(payload, sort_keys=True, ensure_ascii=False)\<close> on the payload dictionary,
  whose values are strings and booleans: a string is written between double quotes with
  the quote, the backslash and the control characters escaped.
\<close>

definition hex_digit :: "nat \<Rightarrow> char" where
  "hex_digit n = (if n < 10 then char_of (48 + n) else char_of (87 + n))"

definition json_escape :: "char \<Rightarrow> string" where
  "json_escape c =
     (let n = (of_char c :: nat) in
      if n = 0x22 then [CHR 0x5C, CHR 0x22]
      else if n = 0x5C then [CHR 0x5C, CHR 0x5C]
      else if n = 0x0A then [CHR 0x5C, CHR ''n'']
      else if n = 0x0D then [CHR 0x5C, CHR ''r'']
      else if n = 0x09 then [CHR 0x5C, CHR ''t'']
      else if n = 0x08 then [CHR 0x5C, CHR ''b'']
      else if n = 0x0C then [CHR 0x5C, CHR ''f'']
      else if n < 0x20
      then [CHR 0x5C, CHR ''u'', CHR ''0'', CHR ''0'', hex_digit (n div 16), hex_digit (n mod 16)]
      else [c])"

definition json_string :: "string \<Rightarrow> string" where
  "json_string s = CHR 0x22 # concat (map json_escape s) @ [CHR 0x22]"

definition json_bool :: "bool \<Rightarrow> string" where
  "json_bool b = (if b then ''true'' else ''false'')"

text \<open>
  The string \<^verbatim>\<open>raw\<close> of \<^verbatim>\<open>make_cache_key\<close>: the payload with its keys in sorted order.
  \<open>sequence\<close> is \<open>None\<close> for Python's \<^verbatim>\<open>None\<close>; on strings \<^verbatim>\<open>artist or ""\<close> is the
  string itself.
\<close>

definition cache_payload ::
  "string \<Rightarrow> string \<Rightarrow> bool \<Rightarrow> string option \<Rightarrow> bool \<Rightarrow> bool \<Rightarrow> bool \<Rightarrow> string" where
  "cache_payload artist song timestamps sequence fast mood metadata =
     ''{'' @ json_string ''artist'' @ '': '' @ json_string (py_lower (py_strip artist)) @
     '', '' @ json_string ''fast'' @ '': '' @ json_bool fast @
     '', '' @ json_string ''metadata'' @ '': '' @ json_bool metadata @
     '', '' @ json_string ''mood'' @ '': '' @ json_bool mood @
     '', '' @ json_string ''sequence'' @ '': '' @
        json_string (case sequence of None \<Rightarrow> [] | Some s \<Rightarrow> s) @
     '', '' @ json_string ''song'' @ '': '' @ json_string (py_lower (py_strip song)) @
     '', '' @ json_string ''timestamps'' @ '': '' @ json_bool timestamps @
     '', '' @ json_string ''v'' @ '': '' @ json_string CACHE_VERSION @ ''}''"

text \<open>
  \<^verbatim>\<open>hashlib.sha256(raw.encode("utf-8"))\<close> is the standard library's: the function from the
  string to the 256-bit digest is a parameter of the model. \<^verbatim>\<open>hexdigest\<close> writes the
  digest as 64 lower-case hexadecimal digits, the most significant first.
\<close>

definition hexdigest :: "256 word \<Rightarrow> string" where
  "hexdigest w = map (\<lambda>i. hex_digit (unat (and (drop_bit (4 * (63 - i)) w) 15))) [0..<64]"

definition make_cache_key ::
  "(string \<Rightarrow> 256 word) \<Rightarrow> string \<Rightarrow> string \<Rightarrow> bool \<Rightarrow> string option \<Rightarrow> bool \<Rightarrow> bool \<Rightarrow> bool \<Rightarrow> string"
where
  "make_cache_key sha256_utf8 artist song timestamps sequence fast mood metadata =
     hexdigest (sha256_utf8 (cache_payload artist song timestamps sequence fast mood metadata))"

subsection \<open>Loading and saving\<close>

text \<open>\<^verbatim>\<open>os.path.join(CACHE_DIR, f"{key}.json")\<close> on a POSIX system.\<close>

definition os_path_join :: "string \<Rightarrow> string \<Rightarrow> string" where
  "os_path_join a b =
     (if b \<noteq> [] \<and> hd b = CHR ''/'' then b
      else if a = [] \<or> last a = CHR ''/'' then a @ b
      else a @ ''/'' @ b)"

definition get_cache_path :: "string \<Rightarrow> string \<Rightarrow> string" where
  "get_cache_path cache_dir key = os_path_join cache_dir (key @ ''.json'')"





text \<open>
  What a cache file holds: \<open>Entry expiry result\<close> is the text that \<^verbatim>\<open>json.dump\<close> writes
  for a dictionary with the numeric \<^verbatim>\<open>expiry\<close> key \<open>expiry\<close> and the \<^verbatim>\<open>result\<close> key \<open>result\<close>
  (\<open>None\<close> when the key is absent; an absent result and a stored \<^verbatim>\<open>None\<close> read the same),
  cut short where \<^verbatim>\<open>json.dump\<close> raised; \<open>Unreadable\<close> is anything else: a file that cannot
  be opened or parsed, or whose content makes the expiry test raise. The cached result is
  of type \<open>'r\<close>.
\<close>

datatype 'r file_content = Unreadable | Entry "rat option" "'r option"

text \<open>
  The file system: the files of the cache directory by path, and the paths on which
  \<^verbatim>\<open>open(path, "w")\<close> and \<^verbatim>\<open>os.remove(path)\<close> succeed (their exceptions are swallowed).
\<close>

record 'r filesystem =
  files :: "string \<rightharpoonup> 'r file_content"
  can_write :: "string \<Rightarrow> bool"
  can_remove :: "string \<Rightarrow> bool"



text \<open>
  \<^verbatim>\<open>open(path, "w")\<close> and \<^verbatim>\<open>json.dump\<close> of the expiry and the result; an exception of
  either is swallowed.
\<close>

definition save_to_cache ::
  "string \<Rightarrow> int \<Rightarrow> rat \<Rightarrow> string \<Rightarrow> 'r option \<Rightarrow> 'r filesystem \<Rightarrow> 'r filesystem" where
  "save_to_cache cache_dir cache_ttl now key result fs =
     (let path = get_cache_path cache_dir key in
      if can_write fs path
      then fs\<lparr>files := (files fs)(path \<mapsto> Entry (Some (now + of_int cache_ttl)) result)\<rparr>
      else fs)"

section \<open>router.py: caching a response\<close>

text \<open>
  The response dictionary as the route holds it before step 5: its \<^verbatim>\<open>status\<close>, its
  \<^verbatim>\<open>data\<close> (\<open>None\<close> when the key is absent) and the other keys.
\<close>

record route_result =
  r_status :: "string option"
  r_data :: "pydict option"
  r_other_keys :: pydict

definition has_lyric_text :: "pydict \<Rightarrow> bool" where
  \<comment> \<open>\<^verbatim>\<open>data.get("lyrics") or data.get("plain_lyrics") or data.get("lyrics_text")\<close>\<close>
  "has_lyric_text d =
     truthy (py_or (py_or (dict_get d ''lyrics'') (dict_get d ''plain_lyrics''))
                   (dict_get d ''lyrics_text''))"

text \<open>Step 5 of the lyrics route, "Cache if successful".\<close>

definition cache_if_successful ::
  "string \<Rightarrow> int \<Rightarrow> rat \<Rightarrow> string \<Rightarrow> route_result \<Rightarrow> route_result filesystem \<Rightarrow> route_result filesystem"
where
  "cache_if_successful cache_dir cache_ttl now cache_key result fs =
     (if r_status result = Some ''success''
      then
        (let d = (case r_data result of None \<Rightarrow> [] | Some x \<Rightarrow> x) in
         if has_lyric_text d
         then save_to_cache cache_dir cache_ttl now cache_key (Some result) fs
         else fs)
      else fs)"

section \<open>The notions the properties are stated with\<close>

text \<open>
  A provider is accepted in a sequential run when it is configured, its call returns a
  result that passes the test for a usable result, and the matcher finds the result valid
  at the threshold 0.75. \<open>skipped_attempt\<close> is the attempt recorded for a provider that is
  not accepted.
\<close>

definition accepts :: "env \<Rightarrow> string \<Rightarrow> string \<Rightarrow> bool \<Rightarrow> int \<Rightarrow> pydict \<Rightarrow> bool" where
  "accepts e artist_name song_title timestamps i r =
     (configured e i \<and>
      outcome (fetch e i artist_name song_title timestamps) = Returns (Some r) \<and>
      usable_result timestamps (Some r) \<and>
      (\<exists>v. validate_lyrics_match artist_name song_title r (3 / 4) = Inr v \<and> valid v))"

definition skipped_attempt :: "env \<Rightarrow> string \<Rightarrow> string \<Rightarrow> bool \<Rightarrow> int \<Rightarrow> seq_attempt" where
  "skipped_attempt e artist_name song_title timestamps i =
     (if \<not> configured e i
      then \<lparr>s_api = fetcher_name i, s_status = ''not_configured'', s_message = None\<rparr>
      else
        (case outcome (fetch e i artist_name song_title timestamps) of
           Raises msg \<Rightarrow>
             \<lparr>s_api = fetcher_name i, s_status = ''error'', s_message = Some (AdapterError msg)\<rparr>
         | Returns None \<Rightarrow>
             \<lparr>s_api = fetcher_name i, s_status = ''no_results'', s_message = None\<rparr>
         | Returns (Some r) \<Rightarrow>
             if usable_result timestamps (Some r)
             then
               (case validate_lyrics_match artist_name song_title r (3 / 4) of
                  Inl ex \<Rightarrow> \<lparr>s_api = fetcher_name i, s_status = ''error'', s_message = Some ex\<rparr>
                | Inr v \<Rightarrow>
                    \<lparr>s_api = fetcher_name i, s_status = ''validation_failed'', s_message = None\<rparr>)
             else \<lparr>s_api = fetcher_name i, s_status = ''no_results'', s_message = None\<rparr>))"

text \<open>The synchronized data the controller looks for when timestamps are requested.\<close>

definition carries_timestamps :: "pydict \<Rightarrow> bool" where
  "carries_timestamps r =
     (truthy (dict_get r ''hasTimestamps'') \<or> truthy (dict_get r ''timed_lyrics'') \<or>
      truthy (dict_get r ''timestamped''))"

text \<open>The canonical form of a request, as \<^verbatim>\<open>make_cache_key\<close> builds its payload from it.\<close>

definition canonical_request ::
  "string \<Rightarrow> string \<Rightarrow> bool \<Rightarrow> string option \<Rightarrow> bool \<Rightarrow> bool \<Rightarrow> bool
   \<Rightarrow> string \<times> string \<times> bool \<times> string \<times> bool \<times> bool \<times> bool" where
  "canonical_request artist song timestamps sequence fast mood metadata =
     (py_lower (py_strip artist), py_lower (py_strip song), timestamps,
      (case sequence of None \<Rightarrow> [] | Some s \<Rightarrow> s), fast, mood, metadata)"

definition is_hex_char :: "char \<Rightarrow> bool" where
  "is_hex_char c = (let n = (of_char c :: nat) in (48 \<le> n \<and> n \<le> 57) \<or> (97 \<le> n \<and> n \<le> 102))"

text \<open>
  Reading one escaped character back from the front of a string: the inverse of
  \<open>json_escape\<close>, by which the serialization is shown to be injective.
\<close>

definition hex_value :: "char \<Rightarrow> nat" where
  "hex_value c = (let n = (of_char c :: nat) in if n < 58 then n - 48 else n - 87)"

fun json_unescape :: "string \<Rightarrow> (char \<times> string) option" where
  "json_unescape [] = None"
| "json_unescape [b] = Some (b, [])"
| "json_unescape (b # x # rest) =
     (if b \<noteq> CHR 0x5C then Some (b, x # rest)
      else if x = CHR 0x22 then Some (CHR 0x22, rest)
      else if x = CHR 0x5C then Some (CHR 0x5C, rest)
      else if x = CHR ''n'' then Some (CHR 0x0A, rest)
      else if x = CHR ''r'' then Some (CHR 0x0D, rest)
      else if x = CHR ''t'' then Some (CHR 0x09, rest)
      else if x = CHR ''b'' then Some (CHR 0x08, rest)
      else if x = CHR ''f'' then Some (CHR 0x0C, rest)
      else
        (case rest of
           z1 # z2 # h1 # h2 # rest' \<Rightarrow> Some (char_of (16 * hex_value h1 + hex_value h2), rest')
         | _ \<Rightarrow> None))"


section \<open>Example runs\<close>

text \<open>
  Surroundings for the concrete runs below: every provider is configured, a call answers
  after one second unless said otherwise, and in a race all tasks are done in one round,
  visited in the reverse of their creation order.
\<close>

definition quick :: "pydict option \<Rightarrow> call" where
  "quick r = \<lparr>latency = 1, outcome = Returns r\<rparr>"

definition env_of :: "(int \<Rightarrow> call) \<Rightarrow> env" where
  "env_of f = \<lparr>configured = (\<lambda>i. True), fetch = (\<lambda>i artist_name song_title timestamps. f i),
              completion = (\<lambda>tasks. [rev tasks])\<rparr>"

definition drake_song :: "string \<Rightarrow> pydict" where
  "drake_song source =
     [(''source'', PStr source), (''artist'', PStr ''Drake''), (''title'', PStr ''Song''),
      (''lyrics'', PStr ''la la'')]"

definition synced_song :: "string \<Rightarrow> string \<Rightarrow> pydict" where
  "synced_song source artist =
     [(''source'', PStr source), (''artist'', PStr artist), (''title'', PStr ''Song''),
      (''lyrics'', PStr ''[00:01.00]la la''), (''hasTimestamps'', PObj True ''True'')]"

definition raw_synced_song :: pydict where
  "raw_synced_song =
     [(''source'', PStr ''simpmusic''), (''artist'', PStr ''Drake''), (''title'', PStr ''Song''),
      (''lyrics'', PStr ''la la''), (''timestamped'', PStr ''[00:01.00]la la''),
      (''hasTimestamps'', PObj False ''False'')]"

definition race_env :: env where
  "race_env = env_of (\<lambda>i. if i = 2 then quick (Some (drake_song ''lrclib''))
                           else if i = 3 then quick (Some (drake_song ''simpmusic''))
                           else quick None)"

definition sequential_env :: env where
  "sequential_env = env_of (\<lambda>i. if i = 2 then quick (Some (synced_song ''lrclib'' ''Kendrick Lamar''))
                                 else if i = 3 then quick (Some (synced_song ''simpmusic'' ''Drake''))
                                 else quick None)"

definition unsynced_env :: env where
  "unsynced_env = env_of (\<lambda>i. if i = 2 then quick (Some (drake_song ''lrclib''))
                               else if i = 3 then quick (Some (synced_song ''simpmusic'' ''Drake''))
                               else quick None)"

definition raw_synced_env :: env where
  "raw_synced_env = env_of (\<lambda>i. if i = 2 then quick (Some raw_synced_song) else quick None)"

definition slow_env :: env where
  "slow_env = env_of (\<lambda>i. if i = 1 then \<lparr>latency = 15, outcome = Returns (Some (drake_song ''genius''))\<rparr>
                           else quick None)"

definition empty_cache :: "'r filesystem" where
  "empty_cache = \<lparr>files = Map.empty, can_write = (\<lambda>path. True), can_remove = (\<lambda>path. True)\<rparr>"


definition empty_success :: route_result where
  "empty_success = \<lparr>r_status = Some ''success'',
                     r_data = Some [(''source'', PStr ''simpmusic''), (''artist'', PStr ''Drake''),
                                    (''title'', PStr ''Song''), (''lyrics'', PNone)],
                     r_other_keys = []\<rparr>"

definition lyric_success :: route_result where
  "lyric_success = \<lparr>r_status = Some ''success'', r_data = Some (drake_song ''lrclib''),
                     r_other_keys = []\<rparr>"

section \<open>Properties\<close>

subsection \<open>Termination of the regular-expression and matching-block recursions\<close>

lemma match_keyword_shorter:
  "match_keyword kws s = Some rest \<Longrightarrow> [] \<notin> set kws \<Longrightarrow> length rest < length s"
proof (induction kws)
  case Nil
  then show ?case by simp
next
  case (Cons kw kws)
  show ?case
  proof (cases "starts_with_ci kw s")
    case True
    with Cons.prems have r: "rest = drop (length kw) s" and k: "kw \<noteq> []" by auto
    from True have "length (take (length kw) s) = length kw"
      unfolding starts_with_ci_def py_lower_def by (metis length_map)
    with k have "s \<noteq> []" by auto
    with r k show ?thesis by (cases s) auto
  next
    case False
    with Cons show ?thesis by simp
  qed
qed

lemma match_featuring_shorter:
  assumes "match_featuring s = Some rest"
  shows "length rest < length s"
proof -
  from assms obtain r where m: "match_keyword featuring_keywords (dropWhile is_space s) = Some r"
    and rest: "rest = dropWhile is_space r"
    by (auto simp: match_featuring_def split: option.splits)
  have "length r < length (dropWhile is_space s)"
    by (rule match_keyword_shorter [OF m]) (simp add: featuring_keywords_def)
  moreover have "length rest \<le> length r"
    unfolding rest by (rule length_dropWhile_le)
  moreover have "length (dropWhile is_space s) \<le> length s"
    by (rule length_dropWhile_le)
  ultimately show ?thesis by linarith
qed

termination sub_featuring
  by (relation "measure length") (auto dest: match_featuring_shorter)

lemma match_delim_shorter:
  assumes "match_delim s = Some rest"
  shows "length rest < length s"
proof -
  from assms obtain d r where d: "dropWhile is_space s = d # r" and rest: "rest = dropWhile is_space r"
    by (auto simp: match_delim_def split: list.splits if_splits)
  have "length rest \<le> length r"
    unfolding rest by (rule length_dropWhile_le)
  moreover have "length (d # r) \<le> length s"
    unfolding d [symmetric] by (rule length_dropWhile_le)
  ultimately show ?thesis by simp
qed

termination re_split_delims
  by (relation "measure (\<lambda>(cur, s). length s)") (auto dest: match_delim_shorter)

text \<open>The block \<^verbatim>\<open>find_longest_match\<close> returns lies inside \<open>a[alo:ahi]\<close>.\<close>

lemma j2len_get_le:
  "\<forall>j v. j2len j = Some v \<longrightarrow> v \<le> n \<Longrightarrow> j2len_get j2len j \<le> n"
  by (auto simp: j2len_get_def split: option.splits)

lemma flm_inner_inv:
  assumes "alo \<le> i" and "\<forall>j v. j2len j = Some v \<longrightarrow> v \<le> i - alo"
  shows "alo \<le> bi \<and> bi + bs \<le> i + 1 \<Longrightarrow> \<forall>j v. new j = Some v \<longrightarrow> v \<le> i + 1 - alo \<Longrightarrow>
         flm_inner i blo bhi j2len js (new, (bi, bj, bs)) = (new', (bi', bj', bs')) \<Longrightarrow>
         alo \<le> bi' \<and> bi' + bs' \<le> i + 1 \<and> (\<forall>j v. new' j = Some v \<longrightarrow> v \<le> i + 1 - alo)"
proof (induction js arbitrary: new bi bj bs)
  case Nil
  then show ?case by simp
next
  case (Cons j js)
  have k: "j2len_get j2len j \<le> i - alo"
    using assms(2) by (rule j2len_get_le)
  show ?case
  proof (cases "j < blo")
    case True
    with Cons.prems Cons.IH [of bi bs new bj] show ?thesis by simp
  next
    case nlo: False
    show ?thesis
    proof (cases "j \<ge> bhi")
      case True
      with nlo Cons.prems show ?thesis by simp
    next
      case False
      let ?k = "j2len_get j2len j + 1"
      have new: "\<forall>j' v. (new(j \<mapsto> ?k)) j' = Some v \<longrightarrow> v \<le> i + 1 - alo"
        using Cons.prems(2) k assms(1) by auto
      show ?thesis
      proof (cases "?k > bs")
        case True
        have b: "alo \<le> i + 1 - ?k \<and> (i + 1 - ?k) + ?k \<le> i + 1"
          using k assms(1) by auto
        from Cons.prems(3) nlo False True
        have "flm_inner i blo bhi j2len js (new(j \<mapsto> ?k), (i + 1 - ?k, j + 1 - ?k, ?k)) = (new', (bi', bj', bs'))"
          by (simp add: Let_def)
        from Cons.IH [OF b new this] show ?thesis .
      next
        case nb: False
        from Cons.prems(3) nlo False nb
        have "flm_inner i blo bhi j2len js (new(j \<mapsto> ?k), (bi, bj, bs)) = (new', (bi', bj', bs'))"
          by (simp add: Let_def)
        from Cons.IH [OF Cons.prems(1) new this] show ?thesis .
      qed
    qed
  qed
qed

lemma flm_outer_inv:
  "alo \<le> i \<Longrightarrow> \<forall>j v. j2len j = Some v \<longrightarrow> v \<le> i - alo \<Longrightarrow> alo \<le> fst best \<and> fst best + snd (snd best) \<le> i \<Longrightarrow>
   flm_outer a b popular i ahi blo bhi (j2len, best) = (bi', bj', bs') \<Longrightarrow>
   alo \<le> bi' \<and> bi' + bs' \<le> max i ahi"
proof (induction a b popular i ahi blo bhi "(j2len, best)" arbitrary: j2len best rule: flm_outer.induct)
  case (1 a b popular i ahi blo bhi j2len best)
  show ?case
  proof (cases "i < ahi")
    case True
    obtain bi bj bs where best: "best = (bi, bj, bs)" by (cases best) auto
    obtain new m where r: "flm_inner i blo bhi j2len (b2j_get b popular (a ! i)) (Map.empty, best) = (new, m)"
      by (cases "flm_inner i blo bhi j2len (b2j_get b popular (a ! i)) (Map.empty, best)") auto
    obtain ci cj cs where m: "m = (ci, cj, cs)" by (cases m) auto
    have pre: "alo \<le> bi \<and> bi + bs \<le> i + 1" using "1.prems"(3) best by simp
    have e: "\<forall>j v. Map.empty j = Some v \<longrightarrow> v \<le> i + 1 - alo" by simp
    from flm_inner_inv [OF "1.prems"(1) "1.prems"(2) pre e r [unfolded best m]]
    have inv: "alo \<le> ci \<and> ci + cs \<le> i + 1 \<and> (\<forall>j v. new j = Some v \<longrightarrow> v \<le> i + 1 - alo)" .
    have "flm_outer a b popular (i + 1) ahi blo bhi (new, m) = (bi', bj', bs')"
      using "1.prems"(4) True r by simp
    from "1.hyps" [OF True r _ _ _ this] inv "1.prems"(1) m True
    show ?thesis by auto
  next
    case False
    with "1.prems" show ?thesis by auto
  qed
qed

lemma extend_left_inv:
  "alo \<le> bi \<Longrightarrow> extend_left a b alo blo (bi, bj, bs) = (bi', bj', bs') \<Longrightarrow>
   alo \<le> bi' \<and> bi' + bs' = bi + bs"
proof (induction a b alo blo "(bi, bj, bs)" arbitrary: bi bj bs rule: extend_left.induct)
  case (1 a b alo blo besti bestj bestsize)
  show ?case
  proof (cases "besti > alo \<and> bestj > blo \<and> a ! (besti - 1) = b ! (bestj - 1)")
    case True
    then have "extend_left a b alo blo (besti - 1, bestj - 1, bestsize + 1) = (bi', bj', bs')"
      using "1.prems"(2) by simp
    from "1.hyps" [OF True _ this] True show ?thesis by auto
  next
    case False
    with "1.prems" show ?thesis by auto
  qed
qed

lemma extend_right_inv:
  "extend_right a b ahi bhi (bi, bj, bs) = (bi', bj', bs') \<Longrightarrow>
   bi' = bi \<and> bi' + bs' \<le> max (bi + bs) ahi"
proof (induction a b ahi bhi "(bi, bj, bs)" arbitrary: bi bj bs rule: extend_right.induct)
  case (1 a b ahi bhi besti bestj bestsize)
  show ?case
  proof (cases "besti + bestsize < ahi \<and> bestj + bestsize < bhi \<and>
         a ! (besti + bestsize) = b ! (bestj + bestsize)")
    case True
    then have "extend_right a b ahi bhi (besti, bestj, bestsize + 1) = (bi', bj', bs')"
      using "1.prems" by simp
    from "1.hyps" [OF True this] True show ?thesis by auto
  next
    case False
    with "1.prems" show ?thesis by auto
  qed
qed

lemma find_longest_match_range:
  assumes "find_longest_match a b popular alo ahi blo bhi = (i, j, k)"
  shows "alo \<le> i \<and> i + k \<le> max alo ahi"
proof -
  obtain i1 j1 k1 where o: "flm_outer a b popular alo ahi blo bhi (Map.empty, (alo, blo, 0)) = (i1, j1, k1)"
    by (cases "flm_outer a b popular alo ahi blo bhi (Map.empty, (alo, blo, 0))") auto
  obtain i2 j2 k2 where l: "extend_left a b alo blo (i1, j1, k1) = (i2, j2, k2)"
    by (cases "extend_left a b alo blo (i1, j1, k1)") auto
  have r: "extend_right a b ahi bhi (i2, j2, k2) = (i, j, k)"
    using assms o l by (simp add: find_longest_match_def)
  have 1: "alo \<le> i1 \<and> i1 + k1 \<le> max alo ahi"
    by (rule flm_outer_inv [OF _ _ _ o]) auto
  from extend_left_inv [OF _ l] 1 have 2: "alo \<le> i2 \<and> i2 + k2 = i1 + k1" by simp
  from extend_right_inv [OF r] have 3: "i = i2 \<and> i + k \<le> max (i2 + k2) ahi" .
  from 1 2 3 show ?thesis by auto
qed

lemma find_longest_match_left:
  "(i, j, k) = find_longest_match a b popular alo ahi blo bhi \<Longrightarrow> 0 < k \<Longrightarrow> alo < i \<Longrightarrow> i < ahi"
  using find_longest_match_range [of a b popular alo ahi blo bhi i j k] by auto

lemma find_longest_match_right:
  "(i, j, k) = find_longest_match a b popular alo ahi blo bhi \<Longrightarrow> 0 < k \<Longrightarrow> alo < i + k"
  using find_longest_match_range [of a b popular alo ahi blo bhi i j k] by auto

termination matching_total
  by (relation "measure (\<lambda>(a, b, popular, alo, ahi, blo, bhi). ahi - alo)")
     (auto dest: find_longest_match_left find_longest_match_right)


subsection \<open>The matcher\<close>

lemma find_artist_match_None:
  "find_artist_match threshold rets (py_join '' '' rets) ret_song reqs = None \<longleftrightarrow>
   (\<forall>req \<in> set reqs. \<not> artist_hit threshold rets ret_song req)"
  by (induction reqs)
     (auto simp: artist_hit_def artist_list_hit_def partial_artist_string_hit_def
        song_title_hit_def list_ex_iff)

lemma find_artist_match_Some:
  "find_artist_match threshold rets (py_join '' '' rets) ret_song reqs = Some tag \<Longrightarrow>
   \<exists>req. first_hit threshold rets ret_song reqs req \<and> tag = method_tag threshold rets req"
proof (induction reqs)
  case Nil
  then show ?case by simp
next
  case (Cons r reqs)
  show ?case
  proof (cases "artist_hit threshold rets ret_song r")
    case True
    have "first_hit threshold rets ret_song (r # reqs) r"
      unfolding first_hit_def using True by (intro exI [of _ "[]"] exI [of _ reqs]) simp
    moreover have "tag = method_tag threshold rets r"
      using True Cons.prems
      by (auto simp: artist_hit_def artist_list_hit_def partial_artist_string_hit_def
            song_title_hit_def method_tag_def list_ex_iff split: if_splits)
    ultimately show ?thesis by blast
  next
    case False
    then have "find_artist_match threshold rets (py_join '' '' rets) ret_song reqs = Some tag"
      using Cons.prems
      by (auto simp: artist_hit_def artist_list_hit_def partial_artist_string_hit_def
            song_title_hit_def list_ex_iff split: if_splits)
    from Cons.IH [OF this] obtain req where
      fh: "first_hit threshold rets ret_song reqs req" and tag: "tag = method_tag threshold rets req"
      by blast
    from fh obtain pre post where "reqs = pre @ req # post"
      "\<forall>x \<in> set pre. \<not> artist_hit threshold rets ret_song x" "artist_hit threshold rets ret_song req"
      unfolding first_hit_def by blast
    with False have "first_hit threshold rets ret_song (r # reqs) req"
      unfolding first_hit_def by (intro exI [of _ "r # pre"] exI [of _ post]) simp
    with tag show ?thesis by blast
  qed
qed

text \<open>
  C3 (amended): when a candidate's metadata can be extracted, the matcher accepts it iff
  the returned artist list and the normalized returned song are both non-empty, the song
  similarity between the normalized requested song and the normalized returned song is at
  least the threshold, and at least one requested artist name passes one of the checks
  (a) similarity at least the threshold to a single returned artist, (b) longer than 3 and
  a substring of the joined returned artists, (c) longer than 3 and a substring of the
  normalized returned song. On acceptance the verdict records the method tag of the first
  requested artist, in order, that passes a check, (a) before (b) before (c).
\<close>

theorem validate_lyrics_match_accepts_iff:
  assumes ex: "extract_artist_song_from_result result = Inr (rets, ret_song)"
  shows "((\<exists>v. validate_lyrics_match requested_artist requested_song result threshold = Inr v \<and> valid v)
          \<longleftrightarrow>
          (rets \<noteq> [] \<and> ret_song \<noteq> [] \<and>
           get_similarity_ratio (normalize_string requested_song) ret_song \<ge> threshold \<and>
           (\<exists>req \<in> set (split_artists requested_artist). artist_hit threshold rets ret_song req)))
       \<and> (\<forall>v. validate_lyrics_match requested_artist requested_song result threshold = Inr v \<and> valid v
            \<longrightarrow> (\<exists>req. first_hit threshold rets ret_song (split_artists requested_artist) req \<and>
                   reason v = ''Matched via '' @ method_tag threshold rets req))"
proof (cases "find_artist_match threshold rets (py_join '' '' rets) ret_song (split_artists requested_artist)")
  case None
  then have no: "\<not> (\<exists>req \<in> set (split_artists requested_artist). artist_hit threshold rets ret_song req)"
    using find_artist_match_None by blast
  have "\<And>v. validate_lyrics_match requested_artist requested_song result threshold = Inr v \<Longrightarrow> \<not> valid v"
    using ex None by (auto simp: validate_lyrics_match_def Let_def split: if_splits)
  with no show ?thesis by blast
next
  case (Some tag)
  from find_artist_match_Some [OF Some] obtain req where
    fh: "first_hit threshold rets ret_song (split_artists requested_artist) req"
    and tag: "tag = method_tag threshold rets req" by blast
  from fh have hit: "\<exists>req \<in> set (split_artists requested_artist). artist_hit threshold rets ret_song req"
    unfolding first_hit_def by auto
  have 1: "(\<exists>v. validate_lyrics_match requested_artist requested_song result threshold = Inr v \<and> valid v)
          \<longleftrightarrow> (rets \<noteq> [] \<and> ret_song \<noteq> [] \<and>
           get_similarity_ratio (normalize_string requested_song) ret_song \<ge> threshold)"
    using ex Some by (auto simp: validate_lyrics_match_def Let_def split: if_splits)
  have 2: "\<And>v. validate_lyrics_match requested_artist requested_song result threshold = Inr v \<Longrightarrow> valid v
            \<Longrightarrow> reason v = ''Matched via '' @ tag"
    using ex Some by (auto simp: validate_lyrics_match_def Let_def split: if_splits)
  from 1 2 hit fh tag show ?thesis by blast
qed

lemma filter_valid_sound:
  "filter_valid requested_artist requested_song threshold atts = Inr vs \<Longrightarrow> vr \<in> set vs \<Longrightarrow>
   \<exists>att \<in> set atts. a_success att \<noteq> Some False \<and> a_result att = Some (vr_result vr) \<and>
      vr_api vr = a_api att \<and>
      validate_lyrics_match requested_artist requested_song (vr_result vr) threshold = Inr (vr_validation vr) \<and>
      valid (vr_validation vr)"
proof (induction atts arbitrary: vs)
  case Nil
  then show ?case by simp
next
  case (Cons att atts)
  then show ?case
    by (fastforce split: if_splits option.splits sum.splits)
qed

text \<open>
  C10: a candidate whose extracted artist list is empty or whose extracted song title
  normalizes to the empty string gets the verdict valid = False with the reason "Missing
  metadata" and without the returned-artists, returned-song and song_match keys (no
  similarity is computed); no batch filtering lists such a candidate among its valid
  results.
\<close>

theorem missing_metadata_rejected:
  assumes ex: "extract_artist_song_from_result result = Inr (rets, ret_song)"
    and missing: "rets = [] \<or> ret_song = []"
  shows "validate_lyrics_match requested_artist requested_song result threshold =
           Inr \<lparr>valid = False, reason = ''Missing metadata'', returned_artists = None,
                returned_song = None, song_match = None\<rparr>
       \<and> (\<forall>attempts report.
             validate_and_filter_results requested_artist requested_song attempts threshold = Inr report
             \<longrightarrow> result \<notin> vr_result ` set (valid_results report))"
proof -
  have v: "validate_lyrics_match requested_artist requested_song result threshold =
           Inr \<lparr>valid = False, reason = ''Missing metadata'', returned_artists = None,
                returned_song = None, song_match = None\<rparr>"
    using ex missing by (auto simp: validate_lyrics_match_def Let_def)
  have "result \<notin> vr_result ` set (valid_results report)"
    if r: "validate_and_filter_results requested_artist requested_song attempts threshold = Inr report"
    for attempts report
  proof
    assume "result \<in> vr_result ` set (valid_results report)"
    then obtain vr where vr: "vr \<in> set (valid_results report)" "vr_result vr = result" by auto
    from r obtain vs where f: "filter_valid requested_artist requested_song threshold attempts = Inr vs"
      and rep: "valid_results report = vs"
      by (auto simp: validate_and_filter_results_def split: sum.splits)
    from filter_valid_sound [OF f] vr rep
    have "validate_lyrics_match requested_artist requested_song result threshold = Inr (vr_validation vr)"
      "valid (vr_validation vr)" by auto
    with v show False by simp
  qed
  with v show ?thesis by blast
qed

subsection \<open>Evaluations used by the witnesses\<close>

lemma title_only_extract:
  "extract_artist_song_from_result [(''title'', PStr ''Song feat Drake'')] =
     Inr ([], ''song feat drake'')"
  by code_simp

lemma title_only_verdict:
  "validate_lyrics_match ''Drake'' ''Song feat Drake'' [(''title'', PStr ''Song feat Drake'')] (3 / 4) =
     Inr \<lparr>valid = False, reason = ''Missing metadata'', returned_artists = None,
          returned_song = None, song_match = None\<rparr>"
  by code_simp

lemma title_only_similarity:
  "get_similarity_ratio (normalize_string ''Song feat Drake'') ''song feat drake'' = 1"
  by code_simp

lemma title_only_artist_hit:
  "artist_hit (3 / 4) [] ''song feat drake'' ''drake''"
  unfolding artist_hit_def song_title_hit_def by code_simp

lemma split_artists_drake: "split_artists ''Drake'' = [''drake'']"
  by code_simp

lemma remix_extract:
  "extract_artist_song_from_result
     [(''artist'', PStr ''Ed Sheeran, Stormzy''), (''song'', PStr ''Shape Of You (Remix)'')] =
     Inr ([''ed sheeran'', ''stormzy''], ''shape of you remix'')"
  by code_simp

lemma remix_verdict:
  "validate_lyrics_match ''Ed Sheeran'' ''Shape of You''
     [(''artist'', PStr ''Ed Sheeran, Stormzy''), (''song'', PStr ''Shape Of You (Remix)'')] (3 / 4) =
     Inr \<lparr>valid = True, reason = ''Matched via Artist List'',
          returned_artists = Some [''ed sheeran'', ''stormzy''],
          returned_song = Some ''shape of you remix'', song_match = Some (4 / 5)\<rparr>"
  by code_simp

text \<open>
  Witness for C3 (amended): the remix example of the specification. The candidate is
  accepted, so by the theorem the metadata is present, the song similarity reaches 0.75
  and a requested artist passes a check; the recorded tag is that of the first hit.
\<close>

theorem validate_lyrics_match_accepts_iff_witness:
  "(\<exists>v. validate_lyrics_match ''Ed Sheeran'' ''Shape of You''
          [(''artist'', PStr ''Ed Sheeran, Stormzy''), (''song'', PStr ''Shape Of You (Remix)'')]
          (3 / 4) = Inr v \<and> valid v)
   \<and> get_similarity_ratio (normalize_string ''Shape of You'') ''shape of you remix'' \<ge> 3 / 4
   \<and> (\<exists>req \<in> set (split_artists ''Ed Sheeran'').
         artist_hit (3 / 4) [''ed sheeran'', ''stormzy''] ''shape of you remix'' req)
   \<and> (\<exists>req. first_hit (3 / 4) [''ed sheeran'', ''stormzy''] ''shape of you remix''
               (split_artists ''Ed Sheeran'') req \<and>
             ''Matched via Artist List'' =
               ''Matched via '' @ method_tag (3 / 4) [''ed sheeran'', ''stormzy''] req)"
proof -
  note t = validate_lyrics_match_accepts_iff
    [OF remix_extract, of "''Ed Sheeran''" "''Shape of You''" "3 / 4"]
  have acc: "\<exists>v. validate_lyrics_match ''Ed Sheeran'' ''Shape of You''
          [(''artist'', PStr ''Ed Sheeran, Stormzy''), (''song'', PStr ''Shape Of You (Remix)'')]
          (3 / 4) = Inr v \<and> valid v"
    using remix_verdict by simp
  from t acc have rhs:
    "get_similarity_ratio (normalize_string ''Shape of You'') ''shape of you remix'' \<ge> 3 / 4"
    "\<exists>req \<in> set (split_artists ''Ed Sheeran'').
         artist_hit (3 / 4) [''ed sheeran'', ''stormzy''] ''shape of you remix'' req"
    by blast+
  from t remix_verdict have tag:
    "\<exists>req. first_hit (3 / 4) [''ed sheeran'', ''stormzy''] ''shape of you remix''
               (split_artists ''Ed Sheeran'') req \<and>
             ''Matched via Artist List'' =
               ''Matched via '' @ method_tag (3 / 4) [''ed sheeran'', ''stormzy''] req"
    by force
  from acc rhs tag show ?thesis by blast
qed

text \<open>
  Counterexample to C3 as stated: the result carries only a title, "Song feat Drake", and
  the request is for "Drake" and that title. The song similarity is 1 and the requested
  artist is a substring of the returned title (check c), so the stated right-hand side
  holds; the matcher rejects the candidate all the same, for its missing artist metadata.
\<close>

theorem validate_lyrics_match_title_only_counterexample:
  "extract_artist_song_from_result [(''title'', PStr ''Song feat Drake'')] =
     Inr ([], ''song feat drake'')
   \<and> \<not> ((\<exists>v. validate_lyrics_match ''Drake'' ''Song feat Drake''
                [(''title'', PStr ''Song feat Drake'')] (3 / 4) = Inr v \<and> valid v)
         \<longleftrightarrow>
         (get_similarity_ratio (normalize_string ''Song feat Drake'') ''song feat drake'' \<ge> 3 / 4 \<and>
          (\<exists>req \<in> set (split_artists ''Drake'').
             artist_hit (3 / 4) [] ''song feat drake'' req)))"
proof -
  have rejected: "\<not> (\<exists>v. validate_lyrics_match ''Drake'' ''Song feat Drake''
                [(''title'', PStr ''Song feat Drake'')] (3 / 4) = Inr v \<and> valid v)"
    by (simp add: title_only_verdict)
  have rhs: "get_similarity_ratio (normalize_string ''Song feat Drake'') ''song feat drake'' \<ge> 3 / 4 \<and>
          (\<exists>req \<in> set (split_artists ''Drake'').
             artist_hit (3 / 4) [] ''song feat drake'' req)"
    using title_only_artist_hit by (simp add: title_only_similarity split_artists_drake)
  from rejected rhs title_only_extract show ?thesis by blast
qed

text \<open>
  Witness for C10: the title-only result has an empty returned-artist list; the verdict is
  "Missing metadata" without the three metadata keys, and a batch holding that result as
  a successful attempt has no valid result.
\<close>

theorem missing_metadata_rejected_witness:
  "validate_lyrics_match ''Drake'' ''Song feat Drake'' [(''title'', PStr ''Song feat Drake'')] (3 / 4) =
     Inr \<lparr>valid = False, reason = ''Missing metadata'', returned_artists = None,
          returned_song = None, song_match = None\<rparr>
   \<and> validate_and_filter_results ''Drake'' ''Song feat Drake''
        [\<lparr>a_api = ''LRCLIB'', a_success = Some True,
          a_result = Some [(''title'', PStr ''Song feat Drake'')], a_reason = None\<rparr>] (3 / 4) =
        Inr \<lparr>has_valid_match = False, valid_results = [], all_failed = True\<rparr>
   \<and> [(''title'', PStr ''Song feat Drake'')] \<notin>
        vr_result ` set (valid_results \<lparr>has_valid_match = False, valid_results = [], all_failed = True\<rparr>)"
proof -
  have batch: "validate_and_filter_results ''Drake'' ''Song feat Drake''
        [\<lparr>a_api = ''LRCLIB'', a_success = Some True,
          a_result = Some [(''title'', PStr ''Song feat Drake'')], a_reason = None\<rparr>] (3 / 4) =
        Inr \<lparr>has_valid_match = False, valid_results = [], all_failed = True\<rparr>"
    by (simp add: validate_and_filter_results_def title_only_verdict)
  from missing_metadata_rejected [OF title_only_extract, of "''Drake''" "''Song feat Drake''" "3 / 4"] batch
  show ?thesis by blast
qed

subsection \<open>Evaluations of the example runs\<close>

lemma lrclib_song_verdict:
  "validate_lyrics_match ''Drake'' ''Song'' (drake_song ''lrclib'') (3 / 4) =
     Inr \<lparr>valid = True, reason = ''Matched via Artist List'', returned_artists = Some [''drake''],
          returned_song = Some ''song'', song_match = Some 1\<rparr>"
  by code_simp

lemma simpmusic_song_verdict:
  "validate_lyrics_match ''Drake'' ''Song'' (drake_song ''simpmusic'') (3 / 4) =
     Inr \<lparr>valid = True, reason = ''Matched via Artist List'', returned_artists = Some [''drake''],
          returned_song = Some ''song'', song_match = Some 1\<rparr>"
  by code_simp

lemma synced_simpmusic_verdict:
  "validate_lyrics_match ''Drake'' ''Song'' (synced_song ''simpmusic'' ''Drake'') (3 / 4) =
     Inr \<lparr>valid = True, reason = ''Matched via Artist List'', returned_artists = Some [''drake''],
          returned_song = Some ''song'', song_match = Some 1\<rparr>"
  by code_simp

lemma wrong_artist_verdict:
  "validate_lyrics_match ''Drake'' ''Song'' (synced_song ''lrclib'' ''Kendrick Lamar'') (3 / 4) =
     Inr \<lparr>valid = False, reason = ''Artist not found in metadata'',
          returned_artists = Some [''kendrick lamar''],
          returned_song = Some ''song'', song_match = Some 1\<rparr>"
  by code_simp

lemma race_env_fast_run:
  "fetch_lyrics_controller race_env ''Drake'' ''Song'' False False None True =
     Inr \<lparr>resp = Success (drake_song ''simpmusic'') None, seq_attempts = [],
          race_attempts = [\<lparr>a_api = ''SimpMusic'', a_success = Some True,
                            a_result = Some (drake_song ''simpmusic''), a_reason = None\<rparr>],
          invoked = [2, 3]\<rparr>"
  by code_simp

lemma race_env_attempts:
  "task_attempt race_env ''Drake'' ''Song'' False 2 =
     \<lparr>a_api = ''LRCLIB'', a_success = Some True, a_result = Some (drake_song ''lrclib''),
      a_reason = None\<rparr>"
  "task_attempt race_env ''Drake'' ''Song'' False 3 =
     \<lparr>a_api = ''SimpMusic'', a_success = Some True, a_result = Some (drake_song ''simpmusic''),
      a_reason = None\<rparr>"
  by code_simp+

lemma race_env_tasks: "created_tasks race_env [2, 3] = [2, 3]"
  by code_simp

lemma race_env_completion: "completion race_env [2, 3] = [[3, 2]]"
  by (simp add: race_env_def env_of_def)

lemma select_fast: "select_sequence timestamps pass_param sequence True = Inr [2, 3]"
  by (simp add: select_sequence_def FAST_MODE_SEQUENCE_def)

lemma select_default_synced: "select_sequence True False None False = Inr [2, 3, 4]"
  by (simp add: select_sequence_def DEFAULT_SYNCED_SEQUENCE_def)

lemma sequential_env_calls:
  "configured sequential_env i"
  "outcome (fetch sequential_env 2 a s t) = Returns (Some (synced_song ''lrclib'' ''Kendrick Lamar''))"
  "outcome (fetch sequential_env 3 a s t) = Returns (Some (synced_song ''simpmusic'' ''Drake''))"
  by (simp_all add: sequential_env_def env_of_def quick_def)

lemma synced_song_usable: "usable_result timestamps (Some (synced_song source artist))"
  by (simp add: usable_result_def synced_song_def dict_get_def)

lemma unsynced_env_calls:
  "configured unsynced_env i"
  "outcome (fetch unsynced_env 2 a s t) = Returns (Some (drake_song ''lrclib''))"
  "latency (fetch unsynced_env 2 a s t) = 1"
  by (simp_all add: unsynced_env_def env_of_def quick_def)

lemma unsynced_env_run:
  "fetch_lyrics_controller unsynced_env ''Drake'' ''Song'' True False None False =
     Inr \<lparr>resp = Success (synced_song ''simpmusic'' ''Drake'') None,
          seq_attempts = [\<lparr>s_api = ''LRCLIB'', s_status = ''no_results'', s_message = None\<rparr>],
          race_attempts = [],
          invoked = [2, 3]\<rparr>"
  by code_simp

lemma drake_song_unsynced: "\<not> carries_timestamps (drake_song source)"
  by (simp add: carries_timestamps_def drake_song_def dict_get_def)

lemma parse_7_7: "parse_sequence ''7,7'' = Inr [7, 7]"
  by code_simp

lemma parse_a_2: "parse_sequence ''a,2'' = Inl ValueError"
  by code_simp

subsection \<open>The sequential loop\<close>

lemma filter_single:
  "r \<noteq> [] \<Longrightarrow>
   validate_and_filter_results artist_name song_title
     [\<lparr>a_api = n, a_success = None, a_result = Some r, a_reason = None\<rparr>] threshold =
     (case validate_lyrics_match artist_name song_title r threshold of
        Inl ex \<Rightarrow> Inl ex
      | Inr v \<Rightarrow>
          Inr (if valid v
               then \<lparr>has_valid_match = True,
                     valid_results = [\<lparr>vr_api = n, vr_result = r, vr_validation = v\<rparr>],
                     all_failed = False\<rparr>
               else \<lparr>has_valid_match = False, valid_results = [], all_failed = True\<rparr>))"
  by (simp add: validate_and_filter_results_def split: sum.splits)

lemma usable_nonempty: "usable_result timestamps (Some r) \<Longrightarrow> r \<noteq> []"
  by (simp add: usable_result_def)

lemma sequential_step_accept:
  assumes "in_all_fetchers i" and "accepts e artist_name song_title timestamps i r"
  shows "sequential_loop e artist_name song_title timestamps (i # rest) attempts calls =
           Inr \<lparr>resp = Success r None, seq_attempts = attempts, race_attempts = [],
                invoked = calls @ [i]\<rparr>"
proof -
  from assms(2) obtain v where
    c: "configured e i" and
    o: "outcome (fetch e i artist_name song_title timestamps) = Returns (Some r)" and
    u: "usable_result timestamps (Some r)" and
    v: "validate_lyrics_match artist_name song_title r (3 / 4) = Inr v" "valid v"
    unfolding accepts_def by blast
  have f: "validate_and_filter_results artist_name song_title
     [\<lparr>a_api = fetcher_name i, a_success = None, a_result = Some r, a_reason = None\<rparr>] (3 / 4) =
     Inr \<lparr>has_valid_match = True,
          valid_results = [\<lparr>vr_api = fetcher_name i, vr_result = r, vr_validation = v\<rparr>],
          all_failed = False\<rparr>"
    using filter_single [OF usable_nonempty [OF u]] v by simp
  show ?thesis
    using assms(1) c o u f by (simp add: Let_def)
qed

lemma sequential_step_skip:
  assumes "in_all_fetchers i" and "\<not> (\<exists>r. accepts e artist_name song_title timestamps i r)"
  shows "sequential_loop e artist_name song_title timestamps (i # rest) attempts calls =
           sequential_loop e artist_name song_title timestamps rest
             (attempts @ [skipped_attempt e artist_name song_title timestamps i])
             (calls @ filter (configured e) [i])"
proof (cases "configured e i")
  case False
  with assms(1) show ?thesis by (simp add: skipped_attempt_def Let_def)
next
  case c: True
  show ?thesis
  proof (cases "outcome (fetch e i artist_name song_title timestamps)")
    case (Raises msg)
    with assms(1) c show ?thesis by (simp add: skipped_attempt_def Let_def)
  next
    case (Returns result)
    show ?thesis
    proof (cases "usable_result timestamps result")
      case False
      with assms(1) c Returns show ?thesis
        by (cases result) (simp_all add: skipped_attempt_def Let_def)
    next
      case u: True
      then obtain r where r: "result = Some r" by (cases result) (auto simp: usable_result_def)
      note f = filter_single [OF usable_nonempty [OF u [unfolded r]], of artist_name song_title "fetcher_name i" "3 / 4"]
      show ?thesis
      proof (cases "validate_lyrics_match artist_name song_title r (3 / 4)")
        case (Inl ex)
        with assms(1) c Returns u r f show ?thesis by (simp add: skipped_attempt_def Let_def)
      next
        case (Inr v)
        with assms(2) c Returns u r have "\<not> valid v" unfolding accepts_def by auto
        with Inr assms(1) c Returns u r f show ?thesis by (simp add: skipped_attempt_def Let_def)
      qed
    qed
  qed
qed

lemma sequential_loop_first_accepted:
  assumes "\<forall>q \<in> set pre. in_all_fetchers q \<and> \<not> (\<exists>r. accepts e artist_name song_title timestamps q r)"
    and "in_all_fetchers p" and "accepts e artist_name song_title timestamps p r"
  shows "sequential_loop e artist_name song_title timestamps (pre @ p # post) attempts calls =
           Inr \<lparr>resp = Success r None,
                seq_attempts = attempts @ map (skipped_attempt e artist_name song_title timestamps) pre,
                race_attempts = [],
                invoked = calls @ filter (configured e) pre @ [p]\<rparr>"
  using assms(1)
proof (induction pre arbitrary: attempts calls)
  case Nil
  show ?case using sequential_step_accept [OF assms(2,3)] by simp
next
  case (Cons q pre)
  from Cons.prems have q: "in_all_fetchers q" "\<not> (\<exists>r. accepts e artist_name song_title timestamps q r)"
    and rest: "\<forall>q \<in> set pre. in_all_fetchers q \<and> \<not> (\<exists>r. accepts e artist_name song_title timestamps q r)"
    by auto
  have "sequential_loop e artist_name song_title timestamps ((q # pre) @ p # post) attempts calls =
        sequential_loop e artist_name song_title timestamps (pre @ p # post)
          (attempts @ [skipped_attempt e artist_name song_title timestamps q])
          (calls @ filter (configured e) [q])"
    using sequential_step_skip [OF q] by simp
  also have "\<dots> = Inr \<lparr>resp = Success r None,
                seq_attempts = (attempts @ [skipped_attempt e artist_name song_title timestamps q]) @
                   map (skipped_attempt e artist_name song_title timestamps) pre,
                race_attempts = [],
                invoked = (calls @ filter (configured e) [q]) @ filter (configured e) pre @ [p]\<rparr>"
    by (rule Cons.IH [OF rest])
  finally show ?case by simp
qed

lemma select_sequence_in_range:
  assumes "select_sequence timestamps pass_param sequence fast_mode = Inr ids"
  shows "\<forall>i \<in> set ids. in_all_fetchers i"
  using assms
  by (auto simp: select_sequence_def in_all_fetchers_def FAST_MODE_SEQUENCE_def
        DEFAULT_SYNCED_SEQUENCE_def DEFAULT_PLAIN_SEQUENCE_def list_all_iff
        split: if_splits sum.splits)

text \<open>
  C2: in sequential mode, for every fetch sequence the controller selects, the run returns
  the result of the first provider, in sequence order, whose fetched candidate is usable
  and passes validation; the providers before it are recorded as attempts, one each, and
  the adapter calls made are those of the configured providers before it and its own: no
  provider after it is invoked.
\<close>

theorem sequential_first_valid_wins:
  assumes sel: "select_sequence timestamps pass_param sequence fast_mode = Inr ids"
    and seq: "\<not> use_parallel pass_param sequence fast_mode ids"
    and ids: "ids = pre @ p # post"
    and pre: "\<forall>q \<in> set pre. \<not> (\<exists>r. accepts e artist_name song_title timestamps q r)"
    and p: "accepts e artist_name song_title timestamps p r"
  shows "fetch_lyrics_controller e artist_name song_title timestamps pass_param sequence fast_mode =
           Inr \<lparr>resp = Success r None,
                seq_attempts = map (skipped_attempt e artist_name song_title timestamps) pre,
                race_attempts = [],
                invoked = filter (configured e) pre @ [p]\<rparr>"
proof -
  from select_sequence_in_range [OF sel] ids
  have r: "\<forall>q \<in> set pre. in_all_fetchers q" "in_all_fetchers p" by auto
  with pre have pre': "\<forall>q \<in> set pre. in_all_fetchers q \<and> \<not> (\<exists>r. accepts e artist_name song_title timestamps q r)"
    by blast
  from sequential_loop_first_accepted [OF pre' r(2) p, of post "[]" "[]"] sel seq ids
  show ?thesis by (simp add: fetch_lyrics_controller_def)
qed

text \<open>
  Witness for C2, the example of the specification: the sequence is 2, 3, 4; provider 2
  returns another artist's song, provider 3 a valid match. The result is provider 3's,
  provider 2 is recorded as "validation_failed" and provider 4 is never called.
\<close>

theorem sequential_first_valid_wins_witness:
  "fetch_lyrics_controller sequential_env ''Drake'' ''Song'' True False None False =
     Inr \<lparr>resp = Success (synced_song ''simpmusic'' ''Drake'') None,
          seq_attempts = [\<lparr>s_api = ''LRCLIB'', s_status = ''validation_failed'', s_message = None\<rparr>],
          race_attempts = [],
          invoked = [2, 3]\<rparr>"
proof -
  have seq: "\<not> use_parallel False None False [2, 3, 4]" by (simp add: use_parallel_def)
  have ids: "[2, 3, 4] = [2] @ 3 # [4 :: int]" by simp
  have pre: "\<forall>q \<in> set [2]. \<not> (\<exists>r. accepts sequential_env ''Drake'' ''Song'' True q r)"
    by (simp add: accepts_def sequential_env_calls wrong_artist_verdict)
  have p: "accepts sequential_env ''Drake'' ''Song'' True 3 (synced_song ''simpmusic'' ''Drake'')"
    by (simp add: accepts_def sequential_env_calls synced_song_usable synced_simpmusic_verdict)
  have sk: "skipped_attempt sequential_env ''Drake'' ''Song'' True 2 =
            \<lparr>s_api = ''LRCLIB'', s_status = ''validation_failed'', s_message = None\<rparr>"
    by (simp add: skipped_attempt_def sequential_env_calls synced_song_usable wrong_artist_verdict
          fetcher_name_def)
  from sequential_first_valid_wins [OF select_default_synced seq ids pre p]
  show ?thesis by (simp add: sk sequential_env_calls)
qed

subsection \<open>The timestamp requirement\<close>

lemma usable_carries:
  "usable_result True (Some r) \<longleftrightarrow> r \<noteq> [] \<and> carries_timestamps r"
  by (simp add: usable_result_def carries_timestamps_def)

lemma fetch_with_timeout_result:
  "a_result (fetch_with_timeout api_name c timestamps timeout) = Some r \<Longrightarrow>
   usable_result timestamps (Some r)"
  by (auto simp: fetch_with_timeout_def split: if_splits call_outcome.splits)

lemma fetch_with_timeout_success:
  "a_success (fetch_with_timeout api_name c timestamps timeout) = Some True \<or>
   a_success (fetch_with_timeout api_name c timestamps timeout) = Some False"
  by (auto simp: fetch_with_timeout_def split: if_splits call_outcome.splits)

lemma fetch_with_timeout_success_result:
  "a_success (fetch_with_timeout api_name c timestamps timeout) = Some True \<Longrightarrow>
   \<exists>r. a_result (fetch_with_timeout api_name c timestamps timeout) = Some r \<and> r \<noteq> []"
  by (auto simp: fetch_with_timeout_def usable_result_def split: if_splits call_outcome.splits option.splits)

lemma race_loop_subset:
  "set (snd (race_loop rounds acc)) \<subseteq> set acc \<union> set (concat rounds)"
  by (induction rounds acc rule: race_loop.induct) auto

lemma sequential_loop_success_usable:
  "sequential_loop e artist_name song_title timestamps ids attempts calls = Inr rn \<Longrightarrow>
   resp rn = Success data v \<Longrightarrow> usable_result timestamps (Some data)"
proof (induction ids arbitrary: attempts calls)
  case Nil
  then show ?case by auto
next
  case (Cons i ids)
  show ?case
  proof (cases "in_all_fetchers i")
    case False
    with Cons.prems show ?thesis by simp
  next
    case True
    show ?thesis
    proof (cases "\<exists>r. accepts e artist_name song_title timestamps i r")
      case True
      then obtain r where r: "accepts e artist_name song_title timestamps i r" by blast
      from sequential_step_accept [OF \<open>in_all_fetchers i\<close> r, of ids attempts calls] Cons.prems
      have "data = r" by auto
      with r show ?thesis by (simp add: accepts_def)
    next
      case False
      from sequential_step_skip [OF \<open>in_all_fetchers i\<close> False, of ids attempts calls] Cons.prems(1)
      have "sequential_loop e artist_name song_title timestamps ids
             (attempts @ [skipped_attempt e artist_name song_title timestamps i])
             (calls @ filter (configured e) [i]) = Inr rn" by simp
      from Cons.IH [OF this Cons.prems(2)] show ?thesis .
    qed
  qed
qed

lemma parallel_branch_success_usable:
  assumes "parallel_branch e artist_name song_title timestamps ids = Inr rn"
    and "resp rn = Success data v"
  shows "usable_result timestamps (Some data)"
proof -
  obtain result attempts where fp:
    "fetch_lyrics_parallel e artist_name song_title timestamps ids = (result, attempts)"
    by (cases "fetch_lyrics_parallel e artist_name song_title timestamps ids") auto
  from assms fp obtain validation where
    val: "validate_and_filter_results artist_name song_title attempts (3 / 4) = Inr validation"
    by (auto simp: parallel_branch_def Let_def split: if_splits sum.splits)
  from assms fp val obtain vr others where
    vrs: "valid_results validation = vr # others" and d: "data = vr_result vr"
    by (auto simp: parallel_branch_def Let_def split: if_splits list.splits)
  from val obtain vs where f: "filter_valid artist_name song_title (3 / 4) attempts = Inr vs"
    and "valid_results validation = vs"
    by (auto simp: validate_and_filter_results_def split: sum.splits)
  with vrs have "vr \<in> set vs" by simp
  from filter_valid_sound [OF f this] d obtain att where
    att: "att \<in> set attempts" "a_result att = Some data" by blast
  have "set attempts \<subseteq> range (task_attempt e artist_name song_title timestamps)"
  proof (cases "created_tasks e ids = []")
    case True
    with fp show ?thesis by (simp add: fetch_lyrics_parallel_def)
  next
    case False
    with fp have "attempts = snd (race_loop (map (map (task_attempt e artist_name song_title timestamps))
                          (completion e (created_tasks e ids))) [])"
      by (simp add: fetch_lyrics_parallel_def Let_def)
    with race_loop_subset [of "map (map (task_attempt e artist_name song_title timestamps))
                          (completion e (created_tasks e ids))" "[]"]
    show ?thesis by auto
  qed
  with att obtain i where "att = task_attempt e artist_name song_title timestamps i" by auto
  with att(2) show ?thesis
    unfolding task_attempt_def by (auto dest: fetch_with_timeout_result)
qed

lemma controller_success_usable:
  assumes "fetch_lyrics_controller e artist_name song_title timestamps pass_param sequence fast_mode = Inr rn"
    and "resp rn = Success data v"
  shows "usable_result timestamps (Some data)"
proof (cases "select_sequence timestamps pass_param sequence fast_mode")
  case (Inl err)
  then have "err = Failure invalid_format_message \<or> err = Failure invalid_sequence_message"
    by (auto simp: select_sequence_def split: if_splits sum.splits)
  with Inl assms show ?thesis by (auto simp: fetch_lyrics_controller_def)
next
  case (Inr ids)
  show ?thesis
  proof (cases "use_parallel pass_param sequence fast_mode ids")
    case True
    with Inr assms(1) have "parallel_branch e artist_name song_title timestamps ids = Inr rn"
      by (simp add: fetch_lyrics_controller_def)
    from parallel_branch_success_usable [OF this assms(2)] show ?thesis .
  next
    case False
    with Inr assms(1) have "sequential_loop e artist_name song_title timestamps ids [] [] = Inr rn"
      by (simp add: fetch_lyrics_controller_def)
    from sequential_loop_success_usable [OF this assms(2)] show ?thesis .
  qed
qed

text \<open>
  C4 (amended): for every run with timestamps requested, the data of a successful
  response carries synchronized data: a true \<^verbatim>\<open>hasTimestamps\<close>, a non-empty
  \<^verbatim>\<open>timed_lyrics\<close> or a non-empty \<^verbatim>\<open>timestamped\<close>. A fetched result with none of the three
  is a "no_results" attempt in the race, and in the sequential loop it is recorded as
  "no_results" and the loop goes on with the next provider.
\<close>

theorem unsynced_result_never_accepted:
  "(\<forall>rn data v.
      fetch_lyrics_controller e artist_name song_title True pass_param sequence fast_mode = Inr rn \<and>
      resp rn = Success data v \<longrightarrow> carries_timestamps data)
   \<and> (\<forall>api_name c r.
        outcome c = Returns (Some r) \<and> latency c \<le> 10 \<and> \<not> carries_timestamps r \<longrightarrow>
        fetch_with_timeout api_name c True 10 =
          \<lparr>a_api = api_name, a_success = Some False, a_result = None,
           a_reason = Some ''no_results''\<rparr>)
   \<and> (\<forall>i r rest attempts calls.
        in_all_fetchers i \<and> configured e i \<and>
        outcome (fetch e i artist_name song_title True) = Returns (Some r) \<and>
        \<not> carries_timestamps r \<longrightarrow>
        sequential_loop e artist_name song_title True (i # rest) attempts calls =
          sequential_loop e artist_name song_title True rest
            (attempts @ [\<lparr>s_api = fetcher_name i, s_status = ''no_results'', s_message = None\<rparr>])
            (calls @ [i]))"
proof (intro conjI allI impI)
  fix rn data v
  assume "fetch_lyrics_controller e artist_name song_title True pass_param sequence fast_mode = Inr rn \<and>
      resp rn = Success data v"
  then have "usable_result True (Some data)"
    using controller_success_usable by blast
  then show "carries_timestamps data" by (simp add: usable_carries)
next
  fix api_name and c :: call and r
  assume "outcome c = Returns (Some r) \<and> latency c \<le> 10 \<and> \<not> carries_timestamps r"
  then show "fetch_with_timeout api_name c True 10 =
          \<lparr>a_api = api_name, a_success = Some False, a_result = None,
           a_reason = Some ''no_results''\<rparr>"
    by (simp add: fetch_with_timeout_def usable_carries)
next
  fix i r rest attempts calls
  assume a: "in_all_fetchers i \<and> configured e i \<and>
        outcome (fetch e i artist_name song_title True) = Returns (Some r) \<and>
        \<not> carries_timestamps r"
  then have "\<not> usable_result True (Some r)" by (simp add: usable_carries)
  with a show "sequential_loop e artist_name song_title True (i # rest) attempts calls =
          sequential_loop e artist_name song_title True rest
            (attempts @ [\<lparr>s_api = fetcher_name i, s_status = ''no_results'', s_message = None\<rparr>])
            (calls @ [i])"
    by (simp add: Let_def)
qed

text \<open>
  Witness for C4 (amended): provider 2 returns plain lyrics without synchronized data,
  provider 3 a synchronized match; with timestamps requested provider 2 is recorded as
  "no_results" and the run returns provider 3's result.
\<close>

theorem unsynced_result_never_accepted_witness:
  "carries_timestamps (synced_song ''simpmusic'' ''Drake'')
   \<and> fetch_with_timeout ''LRCLIB'' (fetch unsynced_env 2 ''Drake'' ''Song'' True) True 10 =
       \<lparr>a_api = ''LRCLIB'', a_success = Some False, a_result = None, a_reason = Some ''no_results''\<rparr>
   \<and> sequential_loop unsynced_env ''Drake'' ''Song'' True (2 # [3, 4]) [] [] =
       sequential_loop unsynced_env ''Drake'' ''Song'' True [3, 4]
         ([] @ [\<lparr>s_api = fetcher_name 2, s_status = ''no_results'', s_message = None\<rparr>]) ([] @ [2])"
proof -
  note t = unsynced_result_never_accepted [of unsynced_env "''Drake''" "''Song''" False None False]
  from t unsynced_env_run have 1: "carries_timestamps (synced_song ''simpmusic'' ''Drake'')"
    by fastforce
  from t have 2: "fetch_with_timeout ''LRCLIB'' (fetch unsynced_env 2 ''Drake'' ''Song'' True) True 10 =
       \<lparr>a_api = ''LRCLIB'', a_success = Some False, a_result = None, a_reason = Some ''no_results''\<rparr>"
    by (simp add: unsynced_env_calls drake_song_unsynced)
  from t have 3: "sequential_loop unsynced_env ''Drake'' ''Song'' True (2 # [3, 4]) [] [] =
       sequential_loop unsynced_env ''Drake'' ''Song'' True [3, 4]
         ([] @ [\<lparr>s_api = fetcher_name 2, s_status = ''no_results'', s_message = None\<rparr>]) ([] @ [2])"
    by (simp add: unsynced_env_calls drake_song_unsynced in_all_fetchers_def)
  from 1 2 3 show ?thesis by blast
qed

text \<open>
  Counterexample to C4 as stated: the result has \<^verbatim>\<open>hasTimestamps\<close> false and a non-empty
  \<^verbatim>\<open>timestamped\<close> text; with timestamps requested the run accepts and returns it.
\<close>

theorem flag_false_accepted_counterexample:
  "dict_get raw_synced_song ''hasTimestamps'' = PObj False ''False''
   \<and> \<not> truthy (dict_get raw_synced_song ''hasTimestamps'')
   \<and> outcome (fetch raw_synced_env 2 ''Drake'' ''Song'' True) = Returns (Some raw_synced_song)
   \<and> fetch_lyrics_controller raw_synced_env ''Drake'' ''Song'' True False None False =
       Inr \<lparr>resp = Success raw_synced_song None, seq_attempts = [], race_attempts = [],
            invoked = [2]\<rparr>"
  by code_simp

subsection \<open>The per-call bound\<close>

text \<open>
  C5: in a sequential run, provider 1 answers after 15 seconds with a valid match. Under
  the 10-second bound of \<^verbatim>\<open>fetch_with_timeout\<close> that call is a "timeout" attempt; the
  sequential loop awaits it unbounded and returns its result, recording no attempt.
\<close>

theorem sequential_call_has_no_timeout:
  "latency (fetch slow_env 1 ''Drake'' ''Song'' False) = 15
   \<and> fetch_with_timeout ''Genius'' (fetch slow_env 1 ''Drake'' ''Song'' False) False 10 =
       \<lparr>a_api = ''Genius'', a_success = Some False, a_result = None, a_reason = Some ''timeout''\<rparr>
   \<and> fetch_lyrics_controller slow_env ''Drake'' ''Song'' False False None False =
       Inr \<lparr>resp = Success (drake_song ''genius'') None, seq_attempts = [], race_attempts = [],
            invoked = [1]\<rparr>"
  by code_simp

subsection \<open>The race\<close>

lemma race_loop_concat:
  "race_loop rounds acc = race_loop [concat rounds] acc"
  by (induction rounds acc rule: race_loop.induct) auto

lemma race_loop_first_success:
  "\<forall>x \<in> set pre. a_success x \<noteq> Some True \<Longrightarrow> a_success w = Some True \<Longrightarrow>
   race_loop [pre @ w # post] acc = (a_result w, acc @ pre @ [w])"
  by (induction pre arbitrary: acc) auto

lemma filter_valid_skip_failed:
  "\<forall>x \<in> set pre. a_success x = Some False \<Longrightarrow>
   filter_valid requested_artist requested_song threshold (pre @ atts) =
   filter_valid requested_artist requested_song threshold atts"
  by (induction pre) auto

lemma task_attempt_failed:
  "a_success (task_attempt e artist_name song_title timestamps q) \<noteq> Some True \<Longrightarrow>
   a_success (task_attempt e artist_name song_title timestamps q) = Some False"
  unfolding task_attempt_def using fetch_with_timeout_success by blast

text \<open>
  C1 (amended): in race mode the batch handed to the matcher ends with the first
  successful attempt in completion order, and every attempt before it has failed. The
  run returns that candidate when it validates, wherever its provider stands in the fetch
  sequence, and fails with "found results but none matched" when it does not; a provider
  that completes later, or is visited later in the same completion round, is not
  considered.
\<close>

theorem race_returns_first_success:
  assumes sel: "select_sequence timestamps pass_param sequence fast_mode = Inr ids"
    and par: "use_parallel pass_param sequence fast_mode ids"
    and tasks: "created_tasks e ids \<noteq> []"
    and order: "concat (completion e (created_tasks e ids)) = pre @ w # post"
    and pre: "\<forall>q \<in> set pre. a_success (task_attempt e artist_name song_title timestamps q) \<noteq> Some True"
    and w: "a_success (task_attempt e artist_name song_title timestamps w) = Some True"
           "a_result (task_attempt e artist_name song_title timestamps w) = Some r"
  shows "case validate_lyrics_match artist_name song_title r (3 / 4) of
           Inl ex \<Rightarrow>
             fetch_lyrics_controller e artist_name song_title timestamps pass_param sequence fast_mode =
               Inl ex
         | Inr v \<Rightarrow>
             fetch_lyrics_controller e artist_name song_title timestamps pass_param sequence fast_mode =
               Inr \<lparr>resp =
                      (if valid v
                       then Success r (if (case song_match v of None \<Rightarrow> 1 | Some m \<Rightarrow> m) < 1
                                       then Some v else None)
                       else Failure (none_matched_message artist_name song_title)),
                    seq_attempts = [],
                    race_attempts = map (task_attempt e artist_name song_title timestamps) (pre @ [w]),
                    invoked = created_tasks e ids\<rparr>"
proof -
  let ?f = "task_attempt e artist_name song_title timestamps"
  have rl: "race_loop (map (map ?f) (completion e (created_tasks e ids))) [] =
            (Some r, map ?f pre @ [?f w])"
  proof -
    have "concat (map (map ?f) (completion e (created_tasks e ids))) =
          map ?f pre @ ?f w # map ?f post"
      using order by (simp add: map_concat [symmetric])
    moreover have "\<forall>x \<in> set (map ?f pre). a_success x \<noteq> Some True"
      using pre by auto
    ultimately show ?thesis
      using race_loop_concat [of "map (map ?f) (completion e (created_tasks e ids))" "[]"]
        race_loop_first_success [of "map ?f pre" "?f w" "map ?f post" "[]"] w
      by simp
  qed
  then have fp: "fetch_lyrics_parallel e artist_name song_title timestamps ids =
                 (Some r, map ?f pre @ [?f w])"
    using tasks by (simp add: fetch_lyrics_parallel_def Let_def)
  from w have ne: "r \<noteq> []"
    unfolding task_attempt_def using fetch_with_timeout_success_result by fastforce
  have failed: "\<forall>x \<in> set (map ?f pre). a_success x = Some False"
    using pre task_attempt_failed by auto
  have fv: "filter_valid artist_name song_title (3 / 4) (map ?f pre @ [?f w]) =
            filter_valid artist_name song_title (3 / 4) [?f w]"
    by (rule filter_valid_skip_failed [OF failed])
  have ctl: "fetch_lyrics_controller e artist_name song_title timestamps pass_param sequence fast_mode =
             parallel_branch e artist_name song_title timestamps ids"
    using sel par by (simp add: fetch_lyrics_controller_def)
  show ?thesis
  proof (cases "validate_lyrics_match artist_name song_title r (3 / 4)")
    case (Inl ex)
    then show ?thesis
      using ctl fp fv w ne
      by (simp add: parallel_branch_def validate_and_filter_results_def Let_def)
  next
    case (Inr v)
    then show ?thesis
      using ctl fp fv w ne
      by (simp add: parallel_branch_def validate_and_filter_results_def Let_def)
  qed
qed

text \<open>
  Witness for C1 (amended): fast mode over the sequence 2, 3, both tasks done in one round
  and provider 3 visited first; the batch is provider 3's attempt alone and its result is
  returned.
\<close>

theorem race_returns_first_success_witness:
  "concat (completion race_env (created_tasks race_env [2, 3])) = [] @ 3 # [2]
   \<and> fetch_lyrics_controller race_env ''Drake'' ''Song'' False False None True =
       Inr \<lparr>resp = Success (drake_song ''simpmusic'') None, seq_attempts = [],
            race_attempts = map (task_attempt race_env ''Drake'' ''Song'' False) ([] @ [3]),
            invoked = created_tasks race_env [2, 3]\<rparr>"
proof -
  have order: "concat (completion race_env (created_tasks race_env [2, 3])) = [] @ 3 # [2]"
    by (simp add: race_env_tasks race_env_completion)
  have par: "use_parallel False None True [2, 3]" by (simp add: use_parallel_def)
  have tasks: "created_tasks race_env [2, 3] \<noteq> []" by (simp add: race_env_tasks)
  have pre: "\<forall>q \<in> set []. a_success (task_attempt race_env ''Drake'' ''Song'' False q) \<noteq> Some True"
    by simp
  have w: "a_success (task_attempt race_env ''Drake'' ''Song'' False 3) = Some True"
    "a_result (task_attempt race_env ''Drake'' ''Song'' False 3) = Some (drake_song ''simpmusic'')"
    by (simp_all add: race_env_attempts)
  from race_returns_first_success [OF select_fast par tasks order pre w] order
  show ?thesis by (simp add: simpmusic_song_verdict)
qed

text \<open>
  Counterexample to C1 as stated: providers 2 and 3 both succeed and both validate, and
  complete in the same round of the race; provider 2 precedes provider 3 in the fetch
  sequence, provider 3 is visited first, and the run returns provider 3's result.
\<close>

theorem race_priority_counterexample:
  "FAST_MODE_SEQUENCE = [2, 3]
   \<and> completion race_env (created_tasks race_env FAST_MODE_SEQUENCE) = [[3, 2]]
   \<and> a_success (task_attempt race_env ''Drake'' ''Song'' False 2) = Some True
   \<and> a_result (task_attempt race_env ''Drake'' ''Song'' False 2) = Some (drake_song ''lrclib'')
   \<and> a_success (task_attempt race_env ''Drake'' ''Song'' False 3) = Some True
   \<and> (\<exists>v. validate_lyrics_match ''Drake'' ''Song'' (drake_song ''lrclib'') (3 / 4) = Inr v \<and> valid v)
   \<and> (\<exists>v. validate_lyrics_match ''Drake'' ''Song'' (drake_song ''simpmusic'') (3 / 4) = Inr v \<and> valid v)
   \<and> (\<exists>rn. fetch_lyrics_controller race_env ''Drake'' ''Song'' False False None True = Inr rn \<and>
            resp rn = Success (drake_song ''simpmusic'') None)
   \<and> drake_song ''simpmusic'' \<noteq> drake_song ''lrclib''"
proof -
  have ne: "drake_song ''simpmusic'' \<noteq> drake_song ''lrclib''"
    by (simp add: drake_song_def)
  then show ?thesis
    by (simp add: FAST_MODE_SEQUENCE_def race_env_tasks race_env_completion race_env_attempts
          lrclib_song_verdict simpmusic_song_verdict race_env_fast_run)
qed

subsection \<open>Custom sequences\<close>

lemma distinct_iff_length_card: "length xs = card (set xs) \<longleftrightarrow> distinct xs"
  using card_distinct distinct_card by metis

text \<open>
  C6 (amended): when a custom sequence is in use (pass is set, fast mode is off and the
  sequence string is not empty), a sequence whose parsed id list is empty, has a value
  outside 1 to 6, has more than 6 entries or has duplicates gives the error "Invalid
  sequence", and a sequence that does not parse gives the error "Invalid sequence
  format"; in both cases no provider adapter is invoked.
\<close>

theorem invalid_custom_sequence_rejected:
  assumes mode: "pass_param" "\<not> fast_mode" "sequence = Some s" "s \<noteq> []"
  shows "(parse_sequence s = Inl ValueError \<longrightarrow>
            fetch_lyrics_controller e artist_name song_title timestamps pass_param sequence fast_mode =
              Inr \<lparr>resp = Failure invalid_format_message, seq_attempts = [], race_attempts = [],
                   invoked = []\<rparr>)
       \<and> (\<forall>ids. parse_sequence s = Inr ids \<and>
               (ids = [] \<or> (\<exists>x \<in> set ids. x < 1 \<or> 6 < x) \<or> length ids > 6 \<or> \<not> distinct ids) \<longrightarrow>
            fetch_lyrics_controller e artist_name song_title timestamps pass_param sequence fast_mode =
              Inr \<lparr>resp = Failure invalid_sequence_message, seq_attempts = [], race_attempts = [],
                   invoked = []\<rparr>)"
proof (intro conjI allI impI)
  assume "parse_sequence s = Inl ValueError"
  with mode show "fetch_lyrics_controller e artist_name song_title timestamps pass_param sequence fast_mode =
              Inr \<lparr>resp = Failure invalid_format_message, seq_attempts = [], race_attempts = [],
                   invoked = []\<rparr>"
    by (simp add: fetch_lyrics_controller_def select_sequence_def)
next
  fix ids
  assume a: "parse_sequence s = Inr ids \<and>
               (ids = [] \<or> (\<exists>x \<in> set ids. x < 1 \<or> 6 < x) \<or> length ids > 6 \<or> \<not> distinct ids)"
  then have bad: "ids = [] \<or> \<not> list_all (\<lambda>x. 1 \<le> x \<and> x \<le> 6) ids \<or> length ids > 6 \<or>
                  length ids \<noteq> card (set ids)"
    by (fastforce simp: list_all_iff distinct_iff_length_card)
  with a mode show "fetch_lyrics_controller e artist_name song_title timestamps pass_param sequence fast_mode =
              Inr \<lparr>resp = Failure invalid_sequence_message, seq_attempts = [], race_attempts = [],
                   invoked = []\<rparr>"
    by (simp add: fetch_lyrics_controller_def select_sequence_def)
qed

text \<open>
  Witness for C6 (amended): the sequences "7,7" and "a,2" with pass set and fast mode off.
\<close>

theorem invalid_custom_sequence_rejected_witness:
  "fetch_lyrics_controller race_env ''Drake'' ''Song'' False True (Some ''7,7'') False =
     Inr \<lparr>resp = Failure invalid_sequence_message, seq_attempts = [], race_attempts = [],
          invoked = []\<rparr>
   \<and> fetch_lyrics_controller race_env ''Drake'' ''Song'' False True (Some ''a,2'') False =
     Inr \<lparr>resp = Failure invalid_format_message, seq_attempts = [], race_attempts = [],
          invoked = []\<rparr>"
proof -
  have m1: "True" "\<not> False" "Some ''7,7'' = Some ''7,7''" "''7,7'' \<noteq> []" by simp_all
  have m2: "True" "\<not> False" "Some ''a,2'' = Some ''a,2''" "''a,2'' \<noteq> []" by simp_all
  from invalid_custom_sequence_rejected [OF m1, of race_env "''Drake''" "''Song''" False]
    invalid_custom_sequence_rejected [OF m2, of race_env "''Drake''" "''Song''" False]
  show ?thesis by (simp add: parse_7_7 parse_a_2)
qed

text \<open>
  Counterexample to C6 as stated: the user supplies the sequence "7,7" (out of range and
  duplicated) with pass set, and fast mode on. The sequence is not validated: the run races
  providers 2 and 3 and returns a result.
\<close>

theorem fast_mode_ignores_sequence_counterexample:
  "parse_sequence ''7,7'' = Inr [7, 7]
   \<and> fetch_lyrics_controller race_env ''Drake'' ''Song'' False True (Some ''7,7'') True =
       Inr \<lparr>resp = Success (drake_song ''simpmusic'') None, seq_attempts = [],
            race_attempts = [\<lparr>a_api = ''SimpMusic'', a_success = Some True,
                              a_result = Some (drake_song ''simpmusic''), a_reason = None\<rparr>],
            invoked = [2, 3]\<rparr>"
proof -
  have "fetch_lyrics_controller race_env ''Drake'' ''Song'' False True (Some ''7,7'') True =
        fetch_lyrics_controller race_env ''Drake'' ''Song'' False False None True"
    by (simp add: fetch_lyrics_controller_def select_fast use_parallel_def)
  with parse_7_7 race_env_fast_run show ?thesis by simp
qed

subsection \<open>The cache key\<close>

lemma of_char_hex_digit:
  "n < 16 \<Longrightarrow> (of_char (hex_digit n) :: nat) = (if n < 10 then 48 + n else 87 + n)"
  by (simp add: hex_digit_def)

lemma hex_value_hex_digit: "n < 16 \<Longrightarrow> hex_value (hex_digit n) = n"
  by (simp add: hex_value_def of_char_hex_digit)

lemma char_eqI: "(of_char c :: nat) = of_char d \<Longrightarrow> c = d"
  by simp

lemma json_unescape_escape: "json_unescape (json_escape c @ xs) = Some (c, xs)"
proof -
  let ?n = "of_char c :: nat"
  consider "?n = 0x22" | "?n = 0x5C" | "?n = 0x0A" | "?n = 0x0D" | "?n = 0x09" | "?n = 0x08"
    | "?n = 0x0C"
    | "?n < 0x20" "?n \<noteq> 0x0A" "?n \<noteq> 0x0D" "?n \<noteq> 0x09" "?n \<noteq> 0x08" "?n \<noteq> 0x0C"
    | "?n \<ge> 0x20" "?n \<noteq> 0x22" "?n \<noteq> 0x5C"
    by linarith
  then show ?thesis
  proof cases
    case 1
    have "c = CHR 0x22" by (rule char_eqI) (simp add: 1)
    then show ?thesis by (simp add: json_escape_def)
  next
    case 2
    have "c = CHR 0x5C" by (rule char_eqI) (simp add: 2)
    then show ?thesis by (simp add: json_escape_def)
  next
    case 3
    have "c = CHR 0x0A" by (rule char_eqI) (simp add: 3)
    then show ?thesis by (simp add: json_escape_def)
  next
    case 4
    have "c = CHR 0x0D" by (rule char_eqI) (simp add: 4)
    then show ?thesis by (simp add: json_escape_def)
  next
    case 5
    have "c = CHR 0x09" by (rule char_eqI) (simp add: 5)
    then show ?thesis by (simp add: json_escape_def)
  next
    case 6
    have "c = CHR 0x08" by (rule char_eqI) (simp add: 6)
    then show ?thesis by (simp add: json_escape_def)
  next
    case 7
    have "c = CHR 0x0C" by (rule char_eqI) (simp add: 7)
    then show ?thesis by (simp add: json_escape_def)
  next
    case 8
    then have e: "json_escape c =
        [CHR 0x5C, CHR ''u'', CHR ''0'', CHR ''0'', hex_digit (?n div 16), hex_digit (?n mod 16)]"
      by (simp add: json_escape_def Let_def)
    from 8 have "?n div 16 < 16" by simp
    then have "16 * hex_value (hex_digit (?n div 16)) + hex_value (hex_digit (?n mod 16)) = ?n"
      by (simp add: hex_value_hex_digit)
    then show ?thesis unfolding e by simp
  next
    case 9
    then have e: "json_escape c = [c]" by (simp add: json_escape_def Let_def)
    from 9 have "c \<noteq> CHR 0x5C" by auto
    then show ?thesis unfolding e by (cases xs) simp_all
  qed
qed

lemma json_escape_prefix_free:
  assumes "json_escape c @ xs = json_escape d @ ys"
  shows "c = d \<and> xs = ys"
proof -
  have "json_unescape (json_escape c @ xs) = json_unescape (json_escape d @ ys)"
    using assms by simp
  then show ?thesis by (simp add: json_unescape_escape)
qed

lemma json_escape_not_quote: "json_escape c @ xs \<noteq> CHR 0x22 # ys"
proof
  assume a: "json_escape c @ xs = CHR 0x22 # ys"
  have "json_escape c \<noteq> []" by (simp add: json_escape_def Let_def)
  with a have h: "hd (json_escape c) = CHR 0x22" by (cases "json_escape c") auto
  have "hd (json_escape c) = CHR 0x5C \<or> (hd (json_escape c) = c \<and> (of_char c :: nat) \<noteq> 0x22)"
    by (simp add: json_escape_def Let_def)
  with h show False by auto
qed

lemma json_escapes_inj:
  "concat (map json_escape s) @ CHR 0x22 # xs = concat (map json_escape t) @ CHR 0x22 # ys \<Longrightarrow>
   s = t \<and> xs = ys"
proof (induction s arbitrary: t)
  case Nil
  show ?case
  proof (cases t)
    case Nil
    with Nil.prems show ?thesis by simp
  next
    case (Cons d t')
    with Nil.prems have "json_escape d @ (concat (map json_escape t') @ CHR 0x22 # ys) = CHR 0x22 # xs"
      by simp
    with json_escape_not_quote show ?thesis by blast
  qed
next
  case (Cons c s)
  show ?case
  proof (cases t)
    case Nil
    with Cons.prems have "json_escape c @ (concat (map json_escape s) @ CHR 0x22 # xs) = CHR 0x22 # ys"
      by simp
    with json_escape_not_quote show ?thesis by blast
  next
    case (Cons d t')
    with Cons.prems have "json_escape c @ (concat (map json_escape s) @ CHR 0x22 # xs) =
                          json_escape d @ (concat (map json_escape t') @ CHR 0x22 # ys)"
      by simp
    from json_escape_prefix_free [OF this]
    have "c = d" and "concat (map json_escape s) @ CHR 0x22 # xs =
                      concat (map json_escape t') @ CHR 0x22 # ys" by auto
    with Cons.IH [of t'] Cons show ?thesis by simp
  qed
qed

lemma json_string_inj:
  "json_string s @ xs = json_string t @ ys \<Longrightarrow> s = t \<and> xs = ys"
  using json_escapes_inj [of s xs t ys] by (simp add: json_string_def)

lemma json_bool_inj:
  "json_bool a @ CHR '','' # xs = json_bool b @ CHR '','' # ys \<Longrightarrow> a = b \<and> xs = ys"
  by (cases a; cases b) (simp_all add: json_bool_def)

lemma hex_digit_is_hex: "n < 16 \<Longrightarrow> is_hex_char (hex_digit n)"
  by (simp add: is_hex_char_def of_char_hex_digit)

lemma nibble_less: "unat (and (w :: 256 word) 15) < 16"
proof -
  have "and w 15 \<le> 15" by (rule word_and_le1)
  then have "unat (and w 15) \<le> unat (15 :: 256 word)" by (simp only: word_le_nat_alt)
  then show ?thesis by simp
qed

lemma hexdigest_shape: "length (hexdigest w) = 64 \<and> (\<forall>c \<in> set (hexdigest w). is_hex_char c)"
proof
  show "length (hexdigest w) = 64" unfolding hexdigest_def by (simp only: length_map length_upt)
  show "\<forall>c \<in> set (hexdigest w). is_hex_char c"
  proof
    fix c assume "c \<in> set (hexdigest w)"
    then obtain i where "c = hex_digit (unat (and (drop_bit (4 * (63 - i)) w) 15))"
      unfolding hexdigest_def set_map by blast
    then show "is_hex_char c" using hex_digit_is_hex [OF nibble_less] by simp
  qed
qed

lemma str_field:
  "json_string k @ '': '' @ json_string v @ xs = json_string k @ '': '' @ json_string v' @ ys \<Longrightarrow>
   v = v' \<and> xs = ys"
  using json_string_inj [of v xs v' ys] by simp

lemma bool_field:
  "json_string k @ '': '' @ json_bool b @ '', '' @ xs =
   json_string k @ '': '' @ json_bool b' @ '', '' @ ys \<Longrightarrow> b = b' \<and> xs = ys"
  using json_bool_inj [of b "CHR '' '' # xs" b' "CHR '' '' # ys"] by simp

lemma cache_payload_inj:
  assumes "cache_payload a s ts sq f m md = cache_payload a' s' ts' sq' f' m' md'"
  shows "canonical_request a s ts sq f m md = canonical_request a' s' ts' sq' f' m' md'"
proof -
  let ?q = "\<lambda>x. case x of None \<Rightarrow> [] | Some s \<Rightarrow> s"
  let ?t7 = "\<lambda>ts. json_string ''timestamps'' @ '': '' @ json_bool ts @
     '', '' @ json_string ''v'' @ '': '' @ json_string CACHE_VERSION @ ''}''"
  let ?t6 = "\<lambda>s ts. json_string ''song'' @ '': '' @ json_string (py_lower (py_strip s)) @ '', '' @ ?t7 ts"
  let ?t5 = "\<lambda>sq s ts. json_string ''sequence'' @ '': '' @ json_string (?q sq) @ '', '' @ ?t6 s ts"
  let ?t4 = "\<lambda>m sq s ts. json_string ''mood'' @ '': '' @ json_bool m @ '', '' @ ?t5 sq s ts"
  let ?t3 = "\<lambda>md m sq s ts. json_string ''metadata'' @ '': '' @ json_bool md @ '', '' @ ?t4 m sq s ts"
  let ?t2 = "\<lambda>f md m sq s ts. json_string ''fast'' @ '': '' @ json_bool f @ '', '' @ ?t3 md m sq s ts"
  from assms have
    "json_string ''artist'' @ '': '' @ json_string (py_lower (py_strip a)) @ ('', '' @ ?t2 f md m sq s ts) =
     json_string ''artist'' @ '': '' @ json_string (py_lower (py_strip a')) @ ('', '' @ ?t2 f' md' m' sq' s' ts')"
    by (simp add: cache_payload_def)
  from str_field [OF this] have 1: "py_lower (py_strip a) = py_lower (py_strip a')"
    and "?t2 f md m sq s ts = ?t2 f' md' m' sq' s' ts'" by simp_all
  from bool_field [OF this(2)] have 2: "f = f'" and "?t3 md m sq s ts = ?t3 md' m' sq' s' ts'"
    by simp_all
  from bool_field [OF this(2)] have 3: "md = md'" and "?t4 m sq s ts = ?t4 m' sq' s' ts'"
    by simp_all
  from bool_field [OF this(2)] have 4: "m = m'" and "?t5 sq s ts = ?t5 sq' s' ts'"
    by simp_all
  then have "json_string ''sequence'' @ '': '' @ json_string (?q sq) @ ('', '' @ ?t6 s ts) =
             json_string ''sequence'' @ '': '' @ json_string (?q sq') @ ('', '' @ ?t6 s' ts')"
    by simp
  from str_field [OF this] have 5: "?q sq = ?q sq'" and "?t6 s ts = ?t6 s' ts'" by simp_all
  then have "json_string ''song'' @ '': '' @ json_string (py_lower (py_strip s)) @ ('', '' @ ?t7 ts) =
             json_string ''song'' @ '': '' @ json_string (py_lower (py_strip s')) @ ('', '' @ ?t7 ts')"
    by simp
  from str_field [OF this] have 6: "py_lower (py_strip s) = py_lower (py_strip s')"
    and "?t7 ts = ?t7 ts'" by simp_all
  from bool_field [OF this(2)] have 7: "ts = ts'" by simp
  from 1 2 3 4 5 6 7 show ?thesis by (simp add: canonical_request_def)
qed

lemma cache_payload_canonical:
  "canonical_request a s ts sq f m md = canonical_request a' s' ts' sq' f' m' md' \<Longrightarrow>
   cache_payload a s ts sq f m md = cache_payload a' s' ts' sq' f' m' md'"
  by (simp add: canonical_request_def cache_payload_def)

lemma adele_canonical:
  "canonical_request ''Adele'' ''Hello'' True (Some ''2,3'') False False False =
   canonical_request '' adele '' ''Hello'' True (Some ''2,3'') False False False"
  by code_simp

lemma adele_canonical_differs:
  "canonical_request ''Adele'' ''Hello'' True (Some ''2,3'') False False False \<noteq>
   canonical_request ''Adele'' ''Hello'' False (Some ''2,3'') False False False"
  by (simp add: canonical_request_def)

lemma adele_lower: "py_lower (py_strip ''Adele'') = py_lower (py_strip ''adele'')"
  by code_simp

lemma hex_digit_inj:
  assumes "a < 16" "b < 16" "hex_digit a = hex_digit b"
  shows "a = b"
proof -
  from assms(3) have "(of_char (hex_digit a) :: nat) = of_char (hex_digit b)" by simp
  with assms(1,2) show ?thesis by (simp add: of_char_hex_digit split: if_splits)
qed

lemma nibble_mask_bit:
  assumes "j < 4"
  shows "bit (15 :: 256 word) j"
proof -
  have m: "(mask 4 :: 256 word) = 15" by (simp add: mask_eq_exp_minus_1)
  from assms have "bit (mask 4 :: 256 word) j" by (simp add: bit_mask_iff)
  then show ?thesis by (simp only: m)
qed

lemma nibbles_determine:
  assumes "\<And>k. k < 64 \<Longrightarrow> and (drop_bit (4 * k) w) 15 = and (drop_bit (4 * k) w') (15 :: 256 word)"
  shows "w = w'"
proof (rule bit_word_eqI)
  fix n assume n: "n < LENGTH(256)"
  then have k: "n div 4 < 64" by simp
  have "bit (and (drop_bit (4 * (n div 4)) w) 15) (n mod 4) =
        bit (and (drop_bit (4 * (n div 4)) w') 15) (n mod 4)"
    using assms [OF k] by simp
  moreover have "bit (15 :: 256 word) (n mod 4)" by (rule nibble_mask_bit) simp
  moreover have "4 * (n div 4) + n mod 4 = n" by simp
  ultimately show "bit w n = bit w' n"
    by (simp add: bit_and_iff bit_drop_bit_eq)
qed

lemma hexdigest_inj:
  assumes "hexdigest w = hexdigest w'"
  shows "w = w'"
proof (rule nibbles_determine)
  fix k :: nat assume k: "k < 64"
  from assms have "\<forall>i \<in> set [0..<64]. hex_digit (unat (and (drop_bit (4 * (63 - i)) w) 15)) =
      hex_digit (unat (and (drop_bit (4 * (63 - i)) w') 15))"
    unfolding hexdigest_def by (simp only: map_eq_conv)
  moreover from k have "63 - k \<in> set [0..<64]" by simp
  ultimately have "hex_digit (unat (and (drop_bit (4 * (63 - (63 - k))) w) 15)) =
      hex_digit (unat (and (drop_bit (4 * (63 - (63 - k))) w') 15))"
    by blast
  moreover from k have "63 - (63 - k) = k" by simp
  ultimately have "hex_digit (unat (and (drop_bit (4 * k) w) 15)) =
      hex_digit (unat (and (drop_bit (4 * k) w') 15))" by simp
  then have "unat (and (drop_bit (4 * k) w) 15) = unat (and (drop_bit (4 * k) w') 15)"
    by (rule hex_digit_inj [OF nibble_less nibble_less])
  then show "and (drop_bit (4 * k) w) 15 = and (drop_bit (4 * k) w') 15"
    by (simp only: word_unat_eq_iff)
qed

lemma make_cache_key_eq_iff:
  "make_cache_key sha256_utf8 a s ts sq f m md = make_cache_key sha256_utf8 a' s' ts' sq' f' m' md' \<longleftrightarrow>
   sha256_utf8 (cache_payload a s ts sq f m md) = sha256_utf8 (cache_payload a' s' ts' sq' f' m' md')"
  by (auto simp add: make_cache_key_def dest: hexdigest_inj)

lemma adele_payload_lengths:
  "length (cache_payload ''Adele'' ''Hello'' False (Some ''2,3'') False False False) =
   Suc (length (cache_payload ''Adele'' ''Hello'' True (Some ''2,3'') False False False))"
  by (simp add: cache_payload_def json_bool_def)

lemma adele_lengths_differ:
  "(word_of_nat (length (cache_payload ''Adele'' ''Hello'' True (Some ''2,3'') False False False)) :: 256 word) \<noteq>
   word_of_nat (length (cache_payload ''Adele'' ''Hello'' False (Some ''2,3'') False False False))"
  unfolding adele_payload_lengths by simp

text \<open>
  C8 (amended): the cache key is 64 hexadecimal digits: the digest, written in
  hexadecimal, of a payload that depends on the arguments through their canonical form
  only (artist and song stripped and lower-cased, an absent sequence as the empty string,
  the four flags). Requests with the same canonical form have the same key. The payloads
  of two requests are equal iff their canonical forms are, and their keys are equal iff
  the digests of their payloads are: when the canonical form of an argument changes, the
  payload changes, and the key changes unless the digest function gives the two different
  payloads the same digest.
\<close>

theorem cache_key_canonical:
  "length (make_cache_key sha256_utf8 a s ts sq f m md) = 64
   \<and> (\<forall>c \<in> set (make_cache_key sha256_utf8 a s ts sq f m md). is_hex_char c)
   \<and> (canonical_request a s ts sq f m md = canonical_request a' s' ts' sq' f' m' md' \<longrightarrow>
        make_cache_key sha256_utf8 a s ts sq f m md = make_cache_key sha256_utf8 a' s' ts' sq' f' m' md')
   \<and> (cache_payload a s ts sq f m md = cache_payload a' s' ts' sq' f' m' md' \<longleftrightarrow>
        canonical_request a s ts sq f m md = canonical_request a' s' ts' sq' f' m' md')
   \<and> (make_cache_key sha256_utf8 a s ts sq f m md = make_cache_key sha256_utf8 a' s' ts' sq' f' m' md' \<longleftrightarrow>
        sha256_utf8 (cache_payload a s ts sq f m md) = sha256_utf8 (cache_payload a' s' ts' sq' f' m' md'))
   \<and> (canonical_request a s ts sq f m md \<noteq> canonical_request a' s' ts' sq' f' m' md' \<longrightarrow>
        cache_payload a s ts sq f m md \<noteq> cache_payload a' s' ts' sq' f' m' md' \<and>
        (sha256_utf8 (cache_payload a s ts sq f m md) \<noteq> sha256_utf8 (cache_payload a' s' ts' sq' f' m' md') \<longrightarrow>
           make_cache_key sha256_utf8 a s ts sq f m md \<noteq> make_cache_key sha256_utf8 a' s' ts' sq' f' m' md'))"
proof -
  have shape: "length (make_cache_key sha256_utf8 a s ts sq f m md) = 64"
    "\<forall>c \<in> set (make_cache_key sha256_utf8 a s ts sq f m md). is_hex_char c"
    unfolding make_cache_key_def using hexdigest_shape by blast+
  have payload: "cache_payload a s ts sq f m md = cache_payload a' s' ts' sq' f' m' md' \<longleftrightarrow>
        canonical_request a s ts sq f m md = canonical_request a' s' ts' sq' f' m' md'"
  proof
    assume "cache_payload a s ts sq f m md = cache_payload a' s' ts' sq' f' m' md'"
    then show "canonical_request a s ts sq f m md = canonical_request a' s' ts' sq' f' m' md'"
      by (rule cache_payload_inj)
  next
    assume "canonical_request a s ts sq f m md = canonical_request a' s' ts' sq' f' m' md'"
    then show "cache_payload a s ts sq f m md = cache_payload a' s' ts' sq' f' m' md'"
      by (rule cache_payload_canonical)
  qed
  have key: "make_cache_key sha256_utf8 a s ts sq f m md = make_cache_key sha256_utf8 a' s' ts' sq' f' m' md' \<longleftrightarrow>
        sha256_utf8 (cache_payload a s ts sq f m md) = sha256_utf8 (cache_payload a' s' ts' sq' f' m' md')"
    by (rule make_cache_key_eq_iff)
  have same: "make_cache_key sha256_utf8 a s ts sq f m md = make_cache_key sha256_utf8 a' s' ts' sq' f' m' md'"
    if "canonical_request a s ts sq f m md = canonical_request a' s' ts' sq' f' m' md'"
  proof -
    from that have "cache_payload a s ts sq f m md = cache_payload a' s' ts' sq' f' m' md'"
      by (rule cache_payload_canonical)
    then show ?thesis by (simp add: make_cache_key_def)
  qed
  from shape payload key same show ?thesis by blast
qed

text \<open>
  Witness for C8 (amended): "Adele" and " adele " give the same key under every digest
  function; changing the timestamps flag changes the payload, and it changes the key
  under a digest function that separates the two payloads (here their length as a 256-bit
  word stands for the digest).
\<close>

theorem cache_key_canonical_witness:
  "(\<forall>sha256_utf8.
     length (make_cache_key sha256_utf8 ''Adele'' ''Hello'' True (Some ''2,3'') False False False) = 64
     \<and> make_cache_key sha256_utf8 ''Adele'' ''Hello'' True (Some ''2,3'') False False False =
       make_cache_key sha256_utf8 '' adele '' ''Hello'' True (Some ''2,3'') False False False)
   \<and> cache_payload ''Adele'' ''Hello'' True (Some ''2,3'') False False False \<noteq>
     cache_payload ''Adele'' ''Hello'' False (Some ''2,3'') False False False
   \<and> make_cache_key (\<lambda>raw. word_of_nat (length raw)) ''Adele'' ''Hello'' True (Some ''2,3'') False False False \<noteq>
     make_cache_key (\<lambda>raw. word_of_nat (length raw)) ''Adele'' ''Hello'' False (Some ''2,3'') False False False"
proof (intro conjI allI)
  fix sha256_utf8 :: "string \<Rightarrow> 256 word"
  from cache_key_canonical [of sha256_utf8 "''Adele''" "''Hello''" True "Some ''2,3''" False False False
      "'' adele ''" "''Hello''" True "Some ''2,3''" False False False] adele_canonical
  show "length (make_cache_key sha256_utf8 ''Adele'' ''Hello'' True (Some ''2,3'') False False False) = 64"
    and "make_cache_key sha256_utf8 ''Adele'' ''Hello'' True (Some ''2,3'') False False False =
       make_cache_key sha256_utf8 '' adele '' ''Hello'' True (Some ''2,3'') False False False"
    by blast+
next
  from cache_key_canonical [of "\<lambda>raw. word_of_nat (length raw)" "''Adele''" "''Hello''" True "Some ''2,3''" False False False
      "''Adele''" "''Hello''" False "Some ''2,3''" False False False] adele_canonical_differs adele_lengths_differ
  show "cache_payload ''Adele'' ''Hello'' True (Some ''2,3'') False False False \<noteq>
       cache_payload ''Adele'' ''Hello'' False (Some ''2,3'') False False False"
    and "make_cache_key (\<lambda>raw. word_of_nat (length raw)) ''Adele'' ''Hello'' True (Some ''2,3'') False False False \<noteq>
     make_cache_key (\<lambda>raw. word_of_nat (length raw)) ''Adele'' ''Hello'' False (Some ''2,3'') False False False"
    by blast+
qed

text \<open>
  Counterexample to C8 as stated: changing the artist argument from "Adele" to "adele"
  does not change the fingerprint, whatever the digest function.
\<close>

theorem cache_key_case_insensitive_counterexample:
  "''Adele'' \<noteq> ''adele''
   \<and> (\<forall>sha256_utf8.
        make_cache_key sha256_utf8 ''Adele'' ''Hello'' True (Some ''2,3'') False False False =
        make_cache_key sha256_utf8 ''adele'' ''Hello'' True (Some ''2,3'') False False False)"
  by (simp add: make_cache_key_def cache_payload_def adele_lower)

subsection \<open>Loading, saving and the caching step\<close>








lemma empty_success_no_text:
  "\<not> has_lyric_text (case r_data empty_success of None \<Rightarrow> [] | Some d \<Rightarrow> d)"
  by (simp add: has_lyric_text_def empty_success_def dict_get_def py_or_def)

lemma lyric_success_text:
  "has_lyric_text (case r_data lyric_success of None \<Rightarrow> [] | Some d \<Rightarrow> d)"
  by (simp add: has_lyric_text_def lyric_success_def drake_song_def dict_get_def py_or_def)

text \<open>
  C9: step 5 of the route changes a cache file only when the response status is "success"
  and its data holds lyric text, and then the file is the entry of that response under the
  cache key; a successful response without lyric text, and a response that is not
  successful, leave the cache as it is.
\<close>

theorem cache_write_only_lyric_bearing_success:
  "(\<forall>path. files (cache_if_successful cache_dir cache_ttl now cache_key result fs) path \<noteq> files fs path
        \<longrightarrow> r_status result = Some ''success'' \<and>
            (\<exists>d. r_data result = Some d \<and> has_lyric_text d) \<and>
            path = get_cache_path cache_dir cache_key \<and>
            files (cache_if_successful cache_dir cache_ttl now cache_key result fs) path =
              Some (Entry (Some (now + of_int cache_ttl)) (Some result)))
   \<and> (r_status result = Some ''success'' \<and>
      \<not> has_lyric_text (case r_data result of None \<Rightarrow> [] | Some d \<Rightarrow> d) \<longrightarrow>
        cache_if_successful cache_dir cache_ttl now cache_key result fs = fs)
   \<and> (r_status result \<noteq> Some ''success'' \<longrightarrow>
        cache_if_successful cache_dir cache_ttl now cache_key result fs = fs)
   \<and> (r_status result = Some ''success'' \<and>
      has_lyric_text (case r_data result of None \<Rightarrow> [] | Some d \<Rightarrow> d) \<longrightarrow>
        cache_if_successful cache_dir cache_ttl now cache_key result fs =
          save_to_cache cache_dir cache_ttl now cache_key (Some result) fs)"
proof -
  have e: "\<not> has_lyric_text []"
    by (simp add: has_lyric_text_def py_or_def dict_get_def)
  show ?thesis
    using e
    by (cases "r_data result")
       (auto simp: cache_if_successful_def save_to_cache_def Let_def split: if_splits)
qed

text \<open>
  Witness for C9: a successful response whose \<^verbatim>\<open>lyrics\<close> is \<^verbatim>\<open>None\<close> is not cached; a
  successful response with lyrics is.
\<close>

theorem cache_write_only_lyric_bearing_success_witness:
  "cache_if_successful ''/tmp/cache'' 300 1000 ''k'' empty_success empty_cache = empty_cache
   \<and> cache_if_successful ''/tmp/cache'' 300 1000 ''k'' lyric_success empty_cache =
       save_to_cache ''/tmp/cache'' 300 1000 ''k'' (Some lyric_success) empty_cache
   \<and> files (cache_if_successful ''/tmp/cache'' 300 1000 ''k'' lyric_success empty_cache)
        (get_cache_path ''/tmp/cache'' ''k'') = Some (Entry (Some (1000 + of_int 300)) (Some lyric_success))"
proof -
  note t1 = cache_write_only_lyric_bearing_success
    [of "''/tmp/cache''" 300 1000 "''k''" empty_success empty_cache]
  note t2 = cache_write_only_lyric_bearing_success
    [of "''/tmp/cache''" 300 1000 "''k''" lyric_success empty_cache]
  have s1: "r_status empty_success = Some ''success''" by (simp add: empty_success_def)
  have s2: "r_status lyric_success = Some ''success''" by (simp add: lyric_success_def)
  from t1 s1 empty_success_no_text
  have 1: "cache_if_successful ''/tmp/cache'' 300 1000 ''k'' empty_success empty_cache = empty_cache"
    by blast
  from t2 s2 lyric_success_text
  have 2: "cache_if_successful ''/tmp/cache'' 300 1000 ''k'' lyric_success empty_cache =
       save_to_cache ''/tmp/cache'' 300 1000 ''k'' (Some lyric_success) empty_cache"
    by blast
  have ch: "files (cache_if_successful ''/tmp/cache'' 300 1000 ''k'' lyric_success empty_cache)
        (get_cache_path ''/tmp/cache'' ''k'') \<noteq> files empty_cache (get_cache_path ''/tmp/cache'' ''k'')"
    unfolding 2 by (simp add: save_to_cache_def empty_cache_def)
  from t2 ch
  have 3: "files (cache_if_successful ''/tmp/cache'' 300 1000 ''k'' lyric_success empty_cache)
        (get_cache_path ''/tmp/cache'' ''k'') = Some (Entry (Some (1000 + of_int 300)) (Some lyric_success))"
    by blast
  from 1 2 3 show ?thesis by blast
qed

end
